theory Spec2Isabelle
  imports
    Complex_Main
    "HOL-Library.Log_Nat"
    "HOL-Library.AList"
    "HOL-Library.Sublist"
    "HOL-Library.Char_ord"
    "HOL-Library.List_Lexorder"
begin

section \<open>JavaScript numbers\<close>

text \<open>
  \<^verbatim>\<open>calculateStats\<close> computes \<^verbatim>\<open>Math.round((completed / totalFiles) * 100)\<close> on
  JavaScript numbers, which are IEEE 754 binary64 values. A finite double is a rational,
  so the arithmetic is modelled on \<^typ>\<open>rat\<close>: an operation returns the exact result
  rounded to the nearest double, ties to the even significand. Only the normal range is
  modelled (53-bit significands, unbounded exponent); the quotients and products of file
  counts are far from the subnormal and overflow ranges.
\<close>

definition ilog2 :: "rat \<Rightarrow> int" where
  \<comment> \<open>for \<open>0 < x\<close>: the exponent \<open>e\<close> with \<open>2 powi e \<le> x < 2 powi (e + 1)\<close>\<close>
  "ilog2 x = (case quotient_of x of (a, b) \<Rightarrow>
     (let d = bitlen a - bitlen b in if 2 powi d \<le> x then d else d - 1))"

definition roundHalfEven :: "rat \<Rightarrow> int" where
  "roundHalfEven x = (let f = \<lfloor>x\<rfloor>; d = x - of_int f in
     if d < 1 / 2 then f else if 1 / 2 < d then f + 1 else if even f then f else f + 1)"

definition toDouble :: "rat \<Rightarrow> rat" where
  \<comment> \<open>the double nearest to a non-negative rational\<close>
  "toDouble x = (if x \<le> 0 then 0 else
     (let u = 2 powi (ilog2 x - 52) in of_int (roundHalfEven (x / u)) * u))"

definition double_div :: "rat \<Rightarrow> rat \<Rightarrow> rat" where
  "double_div a b = toDouble (a / b)"

definition double_mul :: "rat \<Rightarrow> rat \<Rightarrow> rat" where
  "double_mul a b = toDouble (a * b)"

definition Math_round :: "rat \<Rightarrow> int" where
  \<comment> \<open>\<^verbatim>\<open>Math.round\<close>: the nearest integer, a tie going towards plus infinity\<close>
  "Math_round x = \<lfloor>x + 1 / 2\<rfloor>"

section \<open>Translation metadata (src/lib/config.ts, types in src/unnamed/part_001)\<close>

datatype FileStatus = NotStarted | InProgress | Complete

datatype Direction = Ltr | Rtl

text \<open>
  Timestamps are the strings \<^verbatim>\<open>new Date().toISOString()\<close> returns; the reading of the
  clock is a parameter of every function that takes one. \<^verbatim>\<open>null\<close> is \<open>None\<close>.
  Word counts are integral JavaScript numbers, modelled as \<^typ>\<open>int\<close>.
\<close>

record TranslationFileMetadata =
  status :: FileStatus
  lastUpdated :: "string option"
  lastContributor :: "string option"
  lastCommitSha :: "string option"
  prNumber :: "int option"
  prUrl :: "string option"
  wordCount :: int
  machineTranslated :: bool
  humanReviewed :: bool

record TranslationStats =
  totalFiles :: nat
  completed :: nat
  inProgress :: nat
  notStarted :: nat
  percentComplete :: int
  totalWords :: int
  translatedWords :: int
  contributors :: "string list"

record TranslationMeta =
  machineTranslationService :: string
  machineTranslationDate :: string
  sourceCommitSha :: string
  metaNotes :: string

text \<open>
  \<^verbatim>\<open>Record<string, TranslationFileMetadata>\<close> is an association list of the object's
  own properties in insertion order, which is the order \<^verbatim>\<open>Object.values\<close> enumerates
  string keys in; assigning to a key replaces the value in place or appends a new entry
  (\<^const>\<open>AList.update\<close>) and reading an own key is \<^const>\<open>map_of\<close>. Keys are taken not
  to be canonical array indices, which JavaScript would enumerate first.
  \<^verbatim>\<open>updateFileMetadata\<close> is modelled for the file names the routes hand to it, which
  carry the extension \<^verbatim>\<open>.md\<close> and so are not names of members of
  \<^verbatim>\<open>Object.prototype\<close>. \<^verbatim>\<open>createInitialTranslationMetadata\<close> and the word-count pass
  take the names of a directory listing, and there the inherited members are modelled:
  assigning to the key \<^verbatim>\<open>__proto__\<close> of an object that has no own property of that
  name replaces its prototype and adds no own property, and reading a key that is not
  an own property but a member of \<^verbatim>\<open>Object.prototype\<close> yields that member, an object.
  The document's own \<^verbatim>\<open>lastUpdated\<close> is the field \<open>docLastUpdated\<close>.
\<close>

type_synonym FileRecord = "(string \<times> TranslationFileMetadata) list"

record TranslationMetadata =
  version :: string
  language :: string
  languageName :: string
  direction :: Direction
  project :: string
  coordinator :: string
  initialized :: string
  docLastUpdated :: string
  files :: FileRecord
  stats :: TranslationStats
  meta :: TranslationMeta

text \<open>
  \<^verbatim>\<open>Partial<TranslationFileMetadata>\<close>: every field may be absent (\<open>None\<close>); a field
  that is present overrides the entry's when the object is spread over it.
\<close>

record FileUpdates =
  upd_status :: "FileStatus option"
  upd_lastUpdated :: "string option option"
  upd_lastContributor :: "string option option"
  upd_lastCommitSha :: "string option option"
  upd_prNumber :: "int option option"
  upd_prUrl :: "string option option"
  upd_wordCount :: "int option"
  upd_machineTranslated :: "bool option"
  upd_humanReviewed :: "bool option"

definition orElse :: "'a option \<Rightarrow> 'a \<Rightarrow> 'a" where
  "orElse u old = (case u of None \<Rightarrow> old | Some v \<Rightarrow> v)"

definition spreadUpdates :: "TranslationFileMetadata \<Rightarrow> FileUpdates \<Rightarrow> TranslationFileMetadata" where
  \<comment> \<open>\<^verbatim>\<open>{ ...entry, ...updates }\<close>\<close>
  "spreadUpdates e u =
     \<lparr> status = orElse (upd_status u) (status e),
       lastUpdated = orElse (upd_lastUpdated u) (lastUpdated e),
       lastContributor = orElse (upd_lastContributor u) (lastContributor e),
       lastCommitSha = orElse (upd_lastCommitSha u) (lastCommitSha e),
       prNumber = orElse (upd_prNumber u) (prNumber e),
       prUrl = orElse (upd_prUrl u) (prUrl e),
       wordCount = orElse (upd_wordCount u) (wordCount e),
       machineTranslated = orElse (upd_machineTranslated u) (machineTranslated e),
       humanReviewed = orElse (upd_humanReviewed u) (humanReviewed e) \<rparr>"

definition emptyUpdates :: FileUpdates where
  \<comment> \<open>the partial update \<^verbatim>\<open>{}\<close>\<close>
  "emptyUpdates =
     \<lparr> upd_status = None, upd_lastUpdated = None, upd_lastContributor = None,
       upd_lastCommitSha = None, upd_prNumber = None, upd_prUrl = None, upd_wordCount = None,
       upd_machineTranslated = None, upd_humanReviewed = None \<rparr>"

definition setAdd :: "string list \<Rightarrow> string \<Rightarrow> string list" where
  \<comment> \<open>\<^verbatim>\<open>Set.prototype.add\<close> on a set kept in insertion order\<close>
  "setAdd s c = (if c \<in> set s then s else s @ [c])"

definition addContributor :: "string list \<Rightarrow> TranslationFileMetadata \<Rightarrow> string list" where
  \<comment> \<open>\<^verbatim>\<open>if (f.lastContributor) contributorsSet.add(f.lastContributor)\<close>: \<^verbatim>\<open>null\<close> and
      the empty string are falsy\<close>
  "addContributor s f =
     (case lastContributor f of
        None \<Rightarrow> s
      | Some c \<Rightarrow> if c \<noteq> [] then setAdd s c else s)"

definition calculateStats :: "FileRecord \<Rightarrow> TranslationStats" where
  "calculateStats fs =
     (let fileArray = map snd fs;
          total = length fileArray;
          done = length (filter (\<lambda>f. status f = Complete) fileArray);
          doing = length (filter (\<lambda>f. status f = InProgress) fileArray);
          todo = length (filter (\<lambda>f. status f = NotStarted) fileArray);
          percent = (if total > 0
                     then Math_round (double_mul (double_div (of_nat done) (of_nat total)) 100)
                     else 0);
          words = foldl (\<lambda>sum f. sum + wordCount f) 0 fileArray;
          translated = foldl (\<lambda>sum f. sum + wordCount f) 0
                         (filter (\<lambda>f. status f = Complete) fileArray);
          contributorsSet = foldl addContributor [] fileArray
      in \<lparr> totalFiles = total, completed = done, inProgress = doing, notStarted = todo,
           percentComplete = percent, totalWords = words, translatedWords = translated,
           contributors = contributorsSet \<rparr>)"

definition defaultEntry :: TranslationFileMetadata where
  \<comment> \<open>the entry \<^verbatim>\<open>updateFileMetadata\<close> synthesises for an unknown file\<close>
  "defaultEntry =
     \<lparr> status = NotStarted, lastUpdated = None, lastContributor = None, lastCommitSha = None,
       prNumber = None, prUrl = None, wordCount = 0, machineTranslated = False,
       humanReviewed = False \<rparr>"

definition updateFileMetadata ::
  "TranslationMetadata \<Rightarrow> string \<Rightarrow> FileUpdates \<Rightarrow> string \<Rightarrow> string \<Rightarrow> TranslationMetadata" where
  \<comment> \<open>\<open>nowFile\<close> and \<open>nowDoc\<close> are the two readings of the clock, in the order taken\<close>
  "updateFileMetadata metadata filename updates nowFile nowDoc =
     (let updatedFiles = files metadata;
          updatedFiles = (case map_of updatedFiles filename of
                            None \<Rightarrow> AList.update filename defaultEntry updatedFiles
                          | Some _ \<Rightarrow> updatedFiles);
          existing = (case map_of updatedFiles filename of
                        None \<Rightarrow> defaultEntry | Some e \<Rightarrow> e);
          updatedFiles = AList.update filename
                           ((spreadUpdates existing updates)\<lparr>lastUpdated := Some nowFile\<rparr>)
                           updatedFiles;
          newStats = calculateStats updatedFiles
      in metadata\<lparr>files := updatedFiles, stats := newStats, docLastUpdated := nowDoc\<rparr>)"

definition initialEntry :: TranslationFileMetadata where
  "initialEntry =
     \<lparr> status = NotStarted, lastUpdated = None, lastContributor = None, lastCommitSha = None,
       prNumber = None, prUrl = None, wordCount = 0, machineTranslated = True,
       humanReviewed = False \<rparr>"

definition assignProperty ::
  "FileRecord \<Rightarrow> string \<Rightarrow> TranslationFileMetadata \<Rightarrow> FileRecord" where
  \<comment> \<open>\<^verbatim>\<open>filesMetadata[filename] = value\<close> on a plain object: the key \<^verbatim>\<open>__proto__\<close>, when
      it is not an own property, reaches the setter of \<^verbatim>\<open>Object.prototype\<close>\<close>
  "assignProperty fs key v =
     (if key = ''__proto__'' \<and> map_of fs key = None then fs else AList.update key v fs)"

definition createInitialTranslationMetadata ::
  "string \<Rightarrow> string \<Rightarrow> string \<Rightarrow> Direction \<Rightarrow> string \<Rightarrow> string list \<Rightarrow> string \<Rightarrow> string
     \<Rightarrow> TranslationMetadata" where
  \<comment> \<open>the source's second parameter, \<^verbatim>\<open>project\<close>, is never read and is left out;
      \<open>now\<close> is the reading of the clock\<close>
  "createInitialTranslationMetadata projectSlug languageCode langName dir coord names commitSha now =
     (let filesMetadata = foldl (\<lambda>acc filename. assignProperty acc filename initialEntry) [] names;
          initStats = \<lparr> totalFiles = length names, completed = 0, inProgress = 0,
                        notStarted = length names, percentComplete = 0, totalWords = 0,
                        translatedWords = 0, contributors = [] \<rparr>
      in \<lparr> version = ''1.0'', language = languageCode, languageName = langName,
           direction = dir, project = projectSlug, coordinator = coord, initialized = now,
           docLastUpdated = now, files = filesMetadata, stats = initStats,
           meta = \<lparr> machineTranslationService = ''DeepL'', machineTranslationDate = now,
                    sourceCommitSha = commitSha,
                    metaNotes = ''Initialized with machine translation'' \<rparr> \<rparr>)"

text \<open>
  The word-count pass of \<^verbatim>\<open>initializeLanguage\<close> (src/lib/file-processing.ts). Each source
  file comes with the result of reading and counting it: \<open>None\<close> when
  \<^verbatim>\<open>getFileContentAsText\<close> throws (the \<^verbatim>\<open>catch\<close> continues with the next file),
  \<open>Some w\<close> for \<^verbatim>\<open>countWords(content) = w\<close>. The pass runs over the source files
  whose names the document was created from.
\<close>

definition objectPrototypeMembers :: "string list" where
  \<comment> \<open>the properties every plain object inherits\<close>
  "objectPrototypeMembers =
     [''__proto__'', ''constructor'', ''hasOwnProperty'', ''isPrototypeOf'',
      ''propertyIsEnumerable'', ''toLocaleString'', ''toString'', ''valueOf'',
      ''__defineGetter__'', ''__defineSetter__'', ''__lookupGetter__'', ''__lookupSetter__'']"

definition wordCountStep :: "TranslationMetadata \<Rightarrow> string \<times> int option \<Rightarrow> TranslationMetadata" where
  \<comment> \<open>\<^verbatim>\<open>if (metadata.files[file.name]) { ... }\<close>: for a name that is no own property but
      an inherited member the test succeeds, the word count is written to the inherited
      object and only \<^verbatim>\<open>stats.totalWords\<close> changes in the document\<close>
  "wordCountStep metadata file =
     (case snd file of
        None \<Rightarrow> metadata
      | Some w \<Rightarrow>
          (case map_of (files metadata) (fst file) of
             None \<Rightarrow>
               if fst file \<in> set objectPrototypeMembers
               then metadata\<lparr> stats := (stats metadata)\<lparr>totalWords := totalWords (stats metadata) + w\<rparr> \<rparr>
               else metadata
           | Some e \<Rightarrow>
               metadata\<lparr> files := AList.update (fst file) (e\<lparr>wordCount := w\<rparr>) (files metadata),
                         stats := (stats metadata)\<lparr>totalWords := totalWords (stats metadata) + w\<rparr> \<rparr>))"

definition wordCountPass :: "TranslationMetadata \<Rightarrow> (string \<times> int option) list \<Rightarrow> TranslationMetadata" where
  "wordCountPass metadata sourceFiles = foldl wordCountStep metadata sourceFiles"

definition sampleDocument :: TranslationMetadata where
  \<comment> \<open>the document of a freshly initialised language with the single file \<^verbatim>\<open>a.md\<close>\<close>
  "sampleDocument =
     createInitialTranslationMetadata ''topten'' ''es-ES'' ''Spanish'' Ltr ''admin'' [''a.md'']
       ''abc123'' ''2025-01-01T00:00:00.000Z''"

definition markInProgress :: FileUpdates where
  \<comment> \<open>the partial update \<^verbatim>\<open>{ status: 'in-progress' }\<close>\<close>
  "markInProgress = emptyUpdates\<lparr>upd_status := Some InProgress\<rparr>"

text \<open>
  The reference aggregation, in the words of the specification: the number of entries
  with a given status, and the set of all non-null \<^verbatim>\<open>lastContributor\<close> values.
\<close>

definition refCount :: "FileStatus \<Rightarrow> FileRecord \<Rightarrow> nat" where
  "refCount s fs = (\<Sum>f\<leftarrow>map snd fs. if status f = s then 1 else 0)"

definition refContributors :: "FileRecord \<Rightarrow> string set" where
  "refContributors fs = {c. \<exists>f \<in> snd ` set fs. lastContributor f = Some c}"

definition roundHalfUp :: "rat \<Rightarrow> int" where
  \<comment> \<open>round-half-up of an exact quotient\<close>
  "roundHalfUp x = \<lfloor>x + 1 / 2\<rfloor>"

definition numberedFile :: "FileStatus \<Rightarrow> nat \<Rightarrow> string \<times> TranslationFileMetadata" where
  \<comment> \<open>the entry of a file with the given status, under a two-letter name of its own\<close>
  "numberedFile st i =
     ([char_of (97 + i div 26), char_of (97 + i mod 26)] @ ''.md'', initialEntry\<lparr>status := st\<rparr>)"

definition filesWith :: "nat \<Rightarrow> nat \<Rightarrow> FileRecord" where
  \<comment> \<open>\<open>t\<close> files, the first \<open>c\<close> of them complete and the others not started\<close>
  "filesWith c t = map (numberedFile Complete) [0..<c] @ map (numberedFile NotStarted) [c..<t]"

section \<open>Fork synchronisation status (src/lib/fork-management.ts)\<close>

datatype SyncStatus = Behind | Ahead | Diverged | Identical

text \<open>
  What \<^verbatim>\<open>githubClient.compareCommits\<close> resolves to: the counts may be missing
  (\<^verbatim>\<open>behind_by || 0\<close>), as may the commit list and a commit's author.
\<close>

record ApiCommit =
  api_sha :: string
  api_message :: string
  api_authorName :: "string option"
  api_authorDate :: "string option"

record Comparison =
  behind_by :: "int option"
  ahead_by :: "int option"
  api_commits :: "ApiCommit list option"

record CommitSummary =
  sha :: string
  message :: string
  author :: string
  date :: string

record SyncStatusResponse =
  syncStatus :: SyncStatus
  behindBy :: int
  aheadBy :: int
  commits :: "CommitSummary list"

definition orZero :: "int option \<Rightarrow> int" where
  \<comment> \<open>\<^verbatim>\<open>x || 0\<close> on a number that may be undefined\<close>
  "orZero x = (case x of None \<Rightarrow> 0 | Some n \<Rightarrow> n)"

definition orString :: "string option \<Rightarrow> string \<Rightarrow> string" where
  \<comment> \<open>\<^verbatim>\<open>x || d\<close> on a string that may be undefined; the empty string is falsy\<close>
  "orString x d = (case x of None \<Rightarrow> d | Some v \<Rightarrow> if v = [] then d else v)"

definition summarize :: "ApiCommit \<Rightarrow> CommitSummary" where
  "summarize c = \<lparr> sha = api_sha c, message = api_message c,
                   author = orString (api_authorName c) ''Unknown'',
                   date = orString (api_authorDate c) [] \<rparr>"

definition checkForkSyncStatus :: "string + Comparison \<Rightarrow> string + SyncStatusResponse" where
  \<comment> \<open>the argument is the outcome of \<^verbatim>\<open>compareCommits\<close>: \<open>Inl\<close> the message of the error
      it threw, \<open>Inr\<close> the \<^verbatim>\<open>data\<close> of its response\<close>
  "checkForkSyncStatus comparison =
     (case comparison of
        Inl msg \<Rightarrow> Inl (''Failed to check sync status: '' @ msg)
      | Inr d \<Rightarrow>
          (let behind = orZero (behind_by d);
               ahead = orZero (ahead_by d);
               st = (if behind = 0 \<and> ahead = 0 then Identical
                     else if behind > 0 \<and> ahead = 0 then Behind
                     else if behind = 0 \<and> ahead > 0 then Ahead
                     else Diverged);
               cs = (case api_commits d of None \<Rightarrow> [] | Some l \<Rightarrow> map summarize l)
           in Inr \<lparr> syncStatus = st, behindBy = behind, aheadBy = ahead, commits = cs \<rparr>))"

section \<open>File name sanitisation (src/lib/validation.ts)\<close>

text \<open>
  Strings are lists of characters, one \<^typ>\<open>char\<close> for one code unit of the JavaScript
  string (code units below 256). \<^verbatim>\<open>path.basename\<close> is Node's POSIX implementation:
  trailing slashes are dropped, and what follows the last remaining slash is returned.
\<close>

definition slash :: char where "slash = CHR ''/''"

definition backslash :: char where "backslash = CHR 0x5C"

definition basename :: "string \<Rightarrow> string" where
  "basename p = rev (takeWhile (\<lambda>c. c \<noteq> slash) (dropWhile (\<lambda>c. c = slash) (rev p)))"

fun str_includes :: "string \<Rightarrow> string \<Rightarrow> bool" where
  \<comment> \<open>\<^verbatim>\<open>s.includes(pat)\<close>\<close>
  "str_includes [] pat = (pat = [])"
| "str_includes (c # cs) pat = (prefix pat (c # cs) \<or> str_includes cs pat)"

definition isSpace :: "char \<Rightarrow> bool" where
  \<comment> \<open>the white space and line terminators \<^verbatim>\<open>trim\<close> removes, among code units below 256\<close>
  "isSpace c = (c \<in> set [CHR 0x09, CHR 0x0A, CHR 0x0B, CHR 0x0C, CHR 0x0D, CHR 0x20, CHR 0xA0])"

definition trim :: "string \<Rightarrow> string" where
  "trim s = rev (dropWhile isSpace (rev (dropWhile isSpace s)))"

datatype FilenameError = PathTraversal | ProhibitedCharacters | EmptyFilename

definition sanitizeFilename :: "string \<Rightarrow> FilenameError + string" where
  "sanitizeFilename filename =
     (let normalized = basename filename in
      if normalized \<noteq> filename then Inl PathTraversal
      else if str_includes normalized ''..'' \<or> str_includes normalized [slash]
              \<or> str_includes normalized [backslash] then Inl ProhibitedCharacters
      else if normalized = [] \<or> trim normalized = [] then Inl EmptyFilename
      else Inr normalized)"

section \<open>Rate limiting (src/lib/validation.ts)\<close>

record RateEntry =
  count :: int
  resetAt :: int

record RateLimitResult =
  success :: bool
  limit :: int
  remaining :: int
  reset :: int

type_synonym RateLimitStore = "string \<rightharpoonup> RateEntry"

definition checkRateLimit ::
  "RateLimitStore \<Rightarrow> int \<Rightarrow> string \<Rightarrow> int \<Rightarrow> int \<Rightarrow> RateLimitResult \<times> RateLimitStore" where
  \<comment> \<open>the module's \<^verbatim>\<open>rateLimitStore\<close> is passed in and returned; \<open>now\<close> is \<^verbatim>\<open>Date.now()\<close>\<close>
  "checkRateLimit store now identifier lmt windowMs =
     (case store identifier of
        None \<Rightarrow>
          (\<lparr> success = True, limit = lmt, remaining = lmt - 1, reset = now + windowMs \<rparr>,
           store(identifier \<mapsto> \<lparr> count = 1, resetAt = now + windowMs \<rparr>))
      | Some existing \<Rightarrow>
          if resetAt existing < now then
            (\<lparr> success = True, limit = lmt, remaining = lmt - 1, reset = now + windowMs \<rparr>,
             store(identifier \<mapsto> \<lparr> count = 1, resetAt = now + windowMs \<rparr>))
          else
            (let incremented = existing\<lparr>count := count existing + 1\<rparr>;
                 store' = store(identifier \<mapsto> incremented)
             in if count incremented > lmt
                then (\<lparr> success = False, limit = lmt, remaining = 0,
                        reset = resetAt incremented \<rparr>, store')
                else (\<lparr> success = True, limit = lmt, remaining = lmt - count incremented,
                        reset = resetAt incremented \<rparr>, store')))"

fun runCalls :: "RateLimitStore \<Rightarrow> string \<Rightarrow> int \<Rightarrow> int \<Rightarrow> int list \<Rightarrow> RateLimitResult list" where
  \<comment> \<open>successive calls for one identifier, at the given readings of the clock\<close>
  "runCalls store identifier lmt windowMs [] = []"
| "runCalls store identifier lmt windowMs (now # later) =
     (case checkRateLimit store now identifier lmt windowMs of
        (r, store') \<Rightarrow> r # runCalls store' identifier lmt windowMs later)"

definition sameWindow :: "RateLimitStore \<Rightarrow> string \<Rightarrow> int \<Rightarrow> int \<Rightarrow> int list \<Rightarrow> bool" where
  \<comment> \<open>no call after the first finds the window of the first call expired\<close>
  "sameWindow store identifier lmt windowMs calls =
     (case calls of
        [] \<Rightarrow> True
      | now # later \<Rightarrow>
          list_all (\<lambda>t. \<not> reset (fst (checkRateLimit store now identifier lmt windowMs)) < t) later)"

definition entryOk :: "RateLimitStore \<Rightarrow> string \<Rightarrow> bool" where
  \<comment> \<open>a stored entry has counted at least the call that created it\<close>
  "entryOk store identifier = (case store identifier of None \<Rightarrow> True | Some e \<Rightarrow> 1 \<le> count e)"

section \<open>The request wrapper of the GitHub client (src/lib/github.ts)\<close>

text \<open>
  The wrapped operation \<^verbatim>\<open>fn\<close> is given by the outcome of each of its calls, numbered
  from 0: it resolves to a response or rejects with an error whose \<^verbatim>\<open>status\<close> may be
  missing. \<^verbatim>\<open>request\<close> returns what it surfaces, the number of calls of \<^verbatim>\<open>fn\<close> it
  made, and the delays it slept. The warnings of \<^verbatim>\<open>checkRateLimits\<close> do not change the
  result and are left out.
\<close>

datatype 'a Outcome = Resolved 'a | Rejected "nat option"

datatype RequestError = GitHubError nat string | UnexpectedError

record GitHubClientOptions =
  opt_maxRetries :: "nat option"
  opt_retryDelay :: "nat option"

record GitHubClient =
  maxRetries :: nat
  retryDelay :: nat

definition orNat :: "nat option \<Rightarrow> nat \<Rightarrow> nat" where
  \<comment> \<open>\<^verbatim>\<open>x || d\<close> on a number that may be undefined; 0 is falsy\<close>
  "orNat x d = (case x of None \<Rightarrow> d | Some n \<Rightarrow> if n = 0 then d else n)"

definition newGitHubClient :: "GitHubClientOptions \<Rightarrow> GitHubClient" where
  "newGitHubClient options =
     \<lparr> maxRetries = orNat (opt_maxRetries options) 3,
       retryDelay = orNat (opt_retryDelay options) 1000 \<rparr>"

definition isRetryableStatus :: "nat \<Rightarrow> bool" where
  "isRetryableStatus st = (st \<in> set [500, 502, 503, 504])"

definition userMessages :: "nat \<rightharpoonup> string" where
  "userMessages = map_of
     [(401, ''Your session expired. Please log in again.''),
      (403, ''API rate limit exceeded. Please try again in a few minutes.''),
      (404, ''File or repository not found. Please sync your fork.''),
      (409, ''This file was updated by someone else. Please refresh.''),
      (422, ''Invalid file content. Please check your changes.''),
      (500, ''GitHub is experiencing issues. Your work is saved locally.'')]"

definition handleError :: "nat option \<Rightarrow> RequestError" where
  "handleError errStatus =
     (let st = orNat errStatus 500;
          msg = (case userMessages st of
                   None \<Rightarrow> ''An error occurred. Please try again.''
                 | Some m \<Rightarrow> m)
      in GitHubError st msg)"

function requestLoop ::
  "GitHubClient \<Rightarrow> (nat \<Rightarrow> 'a Outcome) \<Rightarrow> nat \<Rightarrow> nat \<Rightarrow> (RequestError + 'a) \<times> nat \<times> nat list" where
  "requestLoop client fn maxAttempts attempt =
     (if attempt < maxAttempts then
        (case fn attempt of
           Resolved response \<Rightarrow> (Inr response, attempt + 1, [])
         | Rejected errStatus \<Rightarrow>
             if isRetryableStatus (orNat errStatus 0) \<and> attempt \<noteq> maxAttempts - 1 then
               (case requestLoop client fn maxAttempts (attempt + 1) of
                  (result, calls, delays) \<Rightarrow>
                    (result, calls, 2 ^ attempt * retryDelay client # delays))
             else (Inl (handleError errStatus), attempt + 1, []))
      else (Inl UnexpectedError, attempt, []))"
  by pat_completeness auto
termination
  by (relation "measure (\<lambda>(client, fn, maxAttempts, attempt). maxAttempts - attempt)") auto

declare requestLoop.simps [simp del]

definition request ::
  "GitHubClient \<Rightarrow> (nat \<Rightarrow> 'a Outcome) \<Rightarrow> nat option \<Rightarrow> (RequestError + 'a) \<times> nat \<times> nat list" where
  "request client fn retries =
     requestLoop client fn (case retries of None \<Rightarrow> maxRetries client | Some r \<Rightarrow> r) 0"

definition failsThrice :: "nat \<Rightarrow> string Outcome" where
  \<comment> \<open>an operation that rejects with status 500 three times and resolves from then on\<close>
  "failsThrice k = (if k < 3 then Rejected (Some 500) else Resolved ''ok'')"

section \<open>Markdown translation (src/lib/translation.ts)\<close>

definition newline :: char where "newline = CHR 0x0A"

definition fence :: string where "fence = ''```''"

fun splitLines :: "string \<Rightarrow> string list" where
  \<comment> \<open>\<^verbatim>\<open>markdown.split('\n')\<close>\<close>
  "splitLines [] = [[]]"
| "splitLines (c # cs) =
     (if c = newline then [] # splitLines cs
      else (case splitLines cs of [] \<Rightarrow> [[c]] | l # ls \<Rightarrow> (c # l) # ls))"

definition isFenceLine :: "string \<Rightarrow> bool" where
  \<comment> \<open>\<^verbatim>\<open>line.trim().startsWith('```')\<close>\<close>
  "isFenceLine line = prefix fence (trim line)"

record SplitState =
  sections :: "string list"
  currentSection :: string
  inCodeBlock :: bool

definition pushCurrent :: "SplitState \<Rightarrow> SplitState" where
  \<comment> \<open>\<^verbatim>\<open>sections.push({ content: currentSection }); currentSection = ''\<close>\<close>
  "pushCurrent st = st\<lparr>sections := sections st @ [currentSection st], currentSection := []\<rparr>"

definition splitStep :: "SplitState \<Rightarrow> string \<Rightarrow> SplitState" where
  \<comment> \<open>the body of the loop over the lines\<close>
  "splitStep st line =
     (if isFenceLine line then
        (let st1 = (if currentSection st \<noteq> [] then pushCurrent st else st);
             st2 = st1\<lparr>inCodeBlock := \<not> inCodeBlock st1\<rparr>;
             st3 = st2\<lparr>currentSection := currentSection st2 @ line @ [newline]\<rparr>
         in if \<not> inCodeBlock st3 then pushCurrent st3 else st3)
      else if inCodeBlock st then
        st\<lparr>currentSection := currentSection st @ line @ [newline]\<rparr>
      else
        (let st1 = st\<lparr>currentSection := currentSection st @ line @ [newline]\<rparr>
         in if trim line = [] \<or> prefix ''#'' (trim line) then
              (if trim (currentSection st1) \<noteq> [] then pushCurrent st1 else st1)
            else st1))"

definition splitMarkdownSections :: "string \<Rightarrow> string list" where
  "splitMarkdownSections markdown =
     (let st = foldl splitStep \<lparr>sections = [], currentSection = [], inCodeBlock = False\<rparr>
                 (splitLines markdown);
          st = (if trim (currentSection st) \<noteq> [] then pushCurrent st else st)
      in sections st)"

definition isLetter :: "char \<Rightarrow> bool" where
  \<comment> \<open>\<^verbatim>\<open>[a-zA-Z]\<close>\<close>
  "isLetter c = (let n = (of_char c :: nat) in (97 \<le> n \<and> n \<le> 122) \<or> (65 \<le> n \<and> n \<le> 90))"

fun hasLetterRun :: "string \<Rightarrow> bool" where
  \<comment> \<open>\<^verbatim>\<open>/[a-zA-Z]{3,}/.test(s)\<close>\<close>
  "hasLetterRun (a # b # c # rest) =
     (isLetter a \<and> isLetter b \<and> isLetter c \<or> hasLetterRun (b # c # rest))"
| "hasLetterRun _ = False"

definition shouldSkipTranslation :: "string \<Rightarrow> bool" where
  "shouldSkipTranslation content =
     (let trimmed = trim content in
      if prefix fence trimmed \<or> str_includes trimmed fence then True
      else if prefix ''http://'' trimmed \<or> prefix ''https://'' trimmed then True
      else if trimmed = [] then True
      else if \<not> hasLetterRun trimmed then True
      else False)"

datatype TranslationError = TranslationError string

fun promiseAll :: "(string + string) list \<Rightarrow> string + string list" where
  \<comment> \<open>\<^verbatim>\<open>Promise.all\<close>: the results in order, or a rejection when one promise rejects\<close>
  "promiseAll [] = Inr []"
| "promiseAll (Inl e # rest) = Inl e"
| "promiseAll (Inr v # rest) = (case promiseAll rest of Inl e \<Rightarrow> Inl e | Inr vs \<Rightarrow> Inr (v # vs))"

definition translateSection :: "(string \<Rightarrow> string \<Rightarrow> string + string) \<Rightarrow> string \<Rightarrow> string \<Rightarrow> string + string" where
  \<comment> \<open>the function mapped over the sections\<close>
  "translateSection translateText targetLanguage content =
     (if shouldSkipTranslation content then Inr content
      else translateText content targetLanguage)"

definition translateMarkdown ::
  "(string \<Rightarrow> string \<Rightarrow> string + string) \<Rightarrow> string \<Rightarrow> string \<Rightarrow> TranslationError + string" where
  \<comment> \<open>\<open>translateText\<close> is the segment translation: \<open>Inl\<close> the message of the error it
      throws (for an unsupported language or a failure of the service), \<open>Inr\<close> its text\<close>
  "translateMarkdown translateText markdown targetLanguage =
     (case promiseAll (map (translateSection translateText targetLanguage)
                         (splitMarkdownSections markdown)) of
        Inl msg \<Rightarrow> Inl (TranslationError (''Failed to translate markdown: '' @ msg))
      | Inr translatedSections \<Rightarrow> Inr (concat translatedSections))"

definition unlines :: "string list \<Rightarrow> string" where
  \<comment> \<open>the text of consecutive lines, each with its line terminator\<close>
  "unlines ls = concat (map (\<lambda>l. l @ [newline]) ls)"

section \<open>updateFileMetadata on an object store\<close>

text \<open>
  Whether \<^verbatim>\<open>updateFileMetadata\<close> mutates its argument is a question about object
  identity, so the function is traced a second time on a store of objects: an address is
  an index into the store, allocation appends, a property assignment overwrites the
  object at an address. A document object refers to its \<^verbatim>\<open>files\<close>, \<^verbatim>\<open>stats\<close> and
  \<^verbatim>\<open>meta\<close> objects, and a files object refers to its entries. \<open>None\<close> is returned only
  on a store where a reference does not lead to an object of its type, which no
  well-typed \<^verbatim>\<open>TranslationMetadata\<close> value is.
\<close>

record DocObject =
  d_version :: string
  d_language :: string
  d_languageName :: string
  d_direction :: Direction
  d_project :: string
  d_coordinator :: string
  d_initialized :: string
  d_lastUpdated :: string
  d_files :: nat
  d_stats :: nat
  d_meta :: nat

datatype Obj =
  ODoc DocObject
  | OFiles "(string \<times> nat) list"
  | OFile TranslationFileMetadata
  | OStats TranslationStats
  | OMeta TranslationMeta

type_synonym Heap = "Obj list"

definition alloc :: "Heap \<Rightarrow> Obj \<Rightarrow> Heap \<times> nat" where
  "alloc h obj = (h @ [obj], length h)"

definition readObj :: "Heap \<Rightarrow> nat \<Rightarrow> Obj option" where
  "readObj h a = (if a < length h then Some (h ! a) else None)"

definition writeObj :: "Heap \<Rightarrow> nat \<Rightarrow> Obj \<Rightarrow> Heap" where
  "writeObj h a obj = h[a := obj]"

definition readFile :: "Heap \<Rightarrow> nat \<Rightarrow> TranslationFileMetadata option" where
  "readFile h a = (case readObj h a of Some (OFile f) \<Rightarrow> Some f | _ \<Rightarrow> None)"

fun readEntries :: "Heap \<Rightarrow> (string \<times> nat) list \<Rightarrow> FileRecord option" where
  "readEntries h [] = Some []"
| "readEntries h (p # rest) =
     (case readFile h (snd p) of
        None \<Rightarrow> None
      | Some f \<Rightarrow>
          (case readEntries h rest of None \<Rightarrow> None | Some es \<Rightarrow> Some ((fst p, f) # es)))"

definition readFiles :: "Heap \<Rightarrow> nat \<Rightarrow> FileRecord option" where
  "readFiles h a = (case readObj h a of Some (OFiles refs) \<Rightarrow> readEntries h refs | _ \<Rightarrow> None)"

definition readStats :: "Heap \<Rightarrow> nat \<Rightarrow> TranslationStats option" where
  "readStats h a = (case readObj h a of Some (OStats s) \<Rightarrow> Some s | _ \<Rightarrow> None)"

definition readMeta :: "Heap \<Rightarrow> nat \<Rightarrow> TranslationMeta option" where
  "readMeta h a = (case readObj h a of Some (OMeta x) \<Rightarrow> Some x | _ \<Rightarrow> None)"

definition buildDoc ::
  "DocObject \<Rightarrow> FileRecord \<Rightarrow> TranslationStats \<Rightarrow> TranslationMeta \<Rightarrow> TranslationMetadata" where
  "buildDoc d fs s x =
     \<lparr> version = d_version d, language = d_language d, languageName = d_languageName d,
       direction = d_direction d, project = d_project d, coordinator = d_coordinator d,
       initialized = d_initialized d, docLastUpdated = d_lastUpdated d,
       files = fs, stats = s, meta = x \<rparr>"

definition readDoc :: "Heap \<Rightarrow> nat \<Rightarrow> TranslationMetadata option" where
  \<comment> \<open>the value of the document at an address, with everything it refers to\<close>
  "readDoc h a =
     (case readObj h a of
        Some (ODoc d) \<Rightarrow>
          (case readFiles h (d_files d) of
             None \<Rightarrow> None
           | Some fs \<Rightarrow>
               (case readStats h (d_stats d) of
                  None \<Rightarrow> None
                | Some s \<Rightarrow>
                    (case readMeta h (d_meta d) of
                       None \<Rightarrow> None
                     | Some x \<Rightarrow> Some (buildDoc d fs s x))))
      | _ \<Rightarrow> None)"

definition synthesizeDefault ::
  "Heap \<Rightarrow> nat \<Rightarrow> (string \<times> nat) list \<Rightarrow> string \<Rightarrow> Heap \<times> (string \<times> nat) list" where
  \<comment> \<open>\<^verbatim>\<open>if (!updatedFiles[filename]) updatedFiles[filename] = { ... }\<close>, where
      \<open>updatedFiles\<close> is the address of the copy and \<open>refs\<close> its properties\<close>
  "synthesizeDefault h updatedFiles refs filename =
     (case map_of refs filename of
        None \<Rightarrow>
          (case alloc h (OFile defaultEntry) of
             (h', a) \<Rightarrow>
               (writeObj h' updatedFiles (OFiles (AList.update filename a refs)),
                AList.update filename a refs))
      | Some _ \<Rightarrow> (h, refs))"

definition replaceEntry ::
  "Heap \<Rightarrow> nat \<Rightarrow> (string \<times> nat) list \<Rightarrow> string \<Rightarrow> FileUpdates \<Rightarrow> string
     \<Rightarrow> (Heap \<times> (string \<times> nat) list) option" where
  \<comment> \<open>\<^verbatim>\<open>updatedFiles[filename] = { ...updatedFiles[filename], ...updates, lastUpdated }\<close>\<close>
  "replaceEntry h updatedFiles refs filename updates nowFile =
     (case map_of refs filename of
        None \<Rightarrow> None
      | Some old \<Rightarrow>
          (case readFile h old of
             None \<Rightarrow> None
           | Some existing \<Rightarrow>
               (case alloc h (OFile ((spreadUpdates existing updates)\<lparr>lastUpdated := Some nowFile\<rparr>)) of
                  (h', a) \<Rightarrow>
                    Some (writeObj h' updatedFiles (OFiles (AList.update filename a refs)),
                          AList.update filename a refs))))"

definition returnDocument ::
  "Heap \<Rightarrow> DocObject \<Rightarrow> nat \<Rightarrow> (string \<times> nat) list \<Rightarrow> string \<Rightarrow> (Heap \<times> nat) option" where
  \<comment> \<open>\<^verbatim>\<open>const stats = calculateStats(updatedFiles); return { ...metadata, files, stats, lastUpdated }\<close>\<close>
  "returnDocument h d updatedFiles refs nowDoc =
     (case readEntries h refs of
        None \<Rightarrow> None
      | Some entries \<Rightarrow>
          (case alloc h (OStats (calculateStats entries)) of
             (h', st) \<Rightarrow>
               Some (alloc h' (ODoc (d\<lparr>d_files := updatedFiles, d_stats := st,
                                        d_lastUpdated := nowDoc\<rparr>)))))"

definition updateFileMetadataH ::
  "Heap \<Rightarrow> nat \<Rightarrow> string \<Rightarrow> FileUpdates \<Rightarrow> string \<Rightarrow> string \<Rightarrow> (Heap \<times> nat) option" where
  "updateFileMetadataH h metadata filename updates nowFile nowDoc =
     (case readObj h metadata of
        Some (ODoc d) \<Rightarrow>
          (case readObj h (d_files d) of
             Some (OFiles refs) \<Rightarrow>
               (case alloc h (OFiles refs) of
                  (h1, updatedFiles) \<Rightarrow>
                    (case synthesizeDefault h1 updatedFiles refs filename of
                       (h2, refs2) \<Rightarrow>
                         (case replaceEntry h2 updatedFiles refs2 filename updates nowFile of
                            None \<Rightarrow> None
                          | Some (h3, refs3) \<Rightarrow> returnDocument h3 d updatedFiles refs3 nowDoc)))
           | _ \<Rightarrow> None)
      | _ \<Rightarrow> None)"

definition sampleStore :: Heap where
  \<comment> \<open>a store holding one document with the single file \<^verbatim>\<open>a.md\<close>, at address 4\<close>
  "sampleStore =
     [OMeta \<lparr> machineTranslationService = ''DeepL'',
              machineTranslationDate = ''2025-01-01T00:00:00.000Z'',
              sourceCommitSha = ''abc123'', metaNotes = ''Initialized with machine translation'' \<rparr>,
      OStats (calculateStats [(''a.md'', initialEntry)]),
      OFile initialEntry,
      OFiles [(''a.md'', 2)],
      ODoc \<lparr> d_version = ''1.0'', d_language = ''es-ES'', d_languageName = ''Spanish'',
             d_direction = Ltr, d_project = ''topten'', d_coordinator = ''admin'',
             d_initialized = ''2025-01-01T00:00:00.000Z'',
             d_lastUpdated = ''2025-01-01T00:00:00.000Z'',
             d_files = 3, d_stats = 1, d_meta = 0 \<rparr>]"

section \<open>Properties of the statistics\<close>

lemma foldl_wordCount:
  "foldl (\<lambda>sum f. sum + wordCount f) a xs = a + sum_list (map wordCount xs)"
  by (induction xs arbitrary: a) simp_all

lemma length_filter_sum: "length (filter P xs) = (\<Sum>x\<leftarrow>xs. if P x then 1 else 0)"
  by (induction xs) simp_all

lemma status_partition:
  "length (filter (\<lambda>f. status f = Complete) xs) + length (filter (\<lambda>f. status f = InProgress) xs)
     + length (filter (\<lambda>f. status f = NotStarted) xs) = length xs"
proof (induction xs)
  case Nil
  show ?case by simp
next
  case (Cons x xs)
  then show ?case by (cases "status x") simp_all
qed

lemma set_foldl_addContributor:
  "set (foldl addContributor acc xs)
     = set acc \<union> {c. c \<noteq> [] \<and> (\<exists>f \<in> set xs. lastContributor f = Some c)}"
proof (induction xs arbitrary: acc)
  case Nil
  show ?case by simp
next
  case (Cons x xs)
  show ?case
    unfolding foldl_Cons Cons.IH
    by (cases "lastContributor x") (auto simp: addContributor_def setAdd_def)
qed

lemma distinct_foldl_addContributor:
  "distinct acc \<Longrightarrow> distinct (foldl addContributor acc xs)"
proof (induction xs arbitrary: acc)
  case Nil
  then show ?case by simp
next
  case (Cons x xs)
  have "distinct (addContributor acc x)"
    using Cons.prems by (cases "lastContributor x") (auto simp: addContributor_def setAdd_def)
  then show ?case using Cons.IH by simp
qed

lemma translated_sum:
  "sum_list (map wordCount (filter (\<lambda>f. status f = Complete) xs))
     = (\<Sum>f\<leftarrow>xs. if status f = Complete then wordCount f else 0)"
  by (induction xs) simp_all

text \<open>
  C2 (amended). For every file mapping, \<open>calculateStats\<close> is the reference aggregation:
  \<open>totalFiles\<close> is the number of entries; \<open>completed\<close>, \<open>inProgress\<close> and \<open>notStarted\<close>
  count the entries of each status and add up to \<open>totalFiles\<close>; \<open>totalWords\<close> is the sum
  of all word counts and \<open>translatedWords\<close> the sum over the complete entries;
  \<open>contributors\<close> has no duplicates and holds the \<open>lastContributor\<close> values that are
  neither null nor the empty string.
\<close>

theorem calculateStats_aggregation:
  "totalFiles (calculateStats fs) = length fs
   \<and> completed (calculateStats fs) = refCount Complete fs
   \<and> inProgress (calculateStats fs) = refCount InProgress fs
   \<and> notStarted (calculateStats fs) = refCount NotStarted fs
   \<and> completed (calculateStats fs) + inProgress (calculateStats fs)
       + notStarted (calculateStats fs) = totalFiles (calculateStats fs)
   \<and> totalWords (calculateStats fs) = (\<Sum>f\<leftarrow>map snd fs. wordCount f)
   \<and> translatedWords (calculateStats fs)
       = (\<Sum>f\<leftarrow>map snd fs. if status f = Complete then wordCount f else 0)
   \<and> distinct (contributors (calculateStats fs))
   \<and> set (contributors (calculateStats fs)) = refContributors fs - {[]}"
  using status_partition [of "map snd fs"]
  by (auto simp: calculateStats_def Let_def refCount_def refContributors_def foldl_wordCount
      length_filter_sum set_foldl_addContributor distinct_foldl_addContributor translated_sum)

text \<open>
  C2 as stated fails: an entry whose \<open>lastContributor\<close> is the empty string is not null,
  yet the truthiness test of \<open>calculateStats\<close> leaves it out of \<open>contributors\<close>.
\<close>

theorem calculateStats_contributors_counterexample:
  "set (contributors (calculateStats [(''a.md'', defaultEntry\<lparr>lastContributor := Some ''''\<rparr>)]))
     \<noteq> refContributors [(''a.md'', defaultEntry\<lparr>lastContributor := Some ''''\<rparr>)]"
  by (simp add: calculateStats_def refContributors_def addContributor_def defaultEntry_def)

lemma toDouble_zero: "toDouble 0 = 0"
  by (simp add: toDouble_def)

lemma percent_zero: "Math_round (double_mul (double_div 0 t) 100) = 0"
proof -
  have "\<lfloor>(1::rat) / 2\<rfloor> = 0" by (simp add: floor_eq_iff)
  then show ?thesis
    by (simp add: double_div_def double_mul_def toDouble_zero Math_round_def)
qed

lemma foldl_update_fresh:
  "distinct names \<Longrightarrow> ''__proto__'' \<notin> set names \<Longrightarrow> set names \<inter> fst ` set acc = {} \<Longrightarrow>
   foldl (\<lambda>acc filename. assignProperty acc filename v) acc names = acc @ map (\<lambda>n. (n, v)) names"
proof (induction names arbitrary: acc)
  case Nil
  show ?case by simp
next
  case (Cons n ns)
  have fresh: "n \<notin> fst ` set acc" using Cons.prems by auto
  have "AList.update n v acc = acc @ [(n, v)]"
    using fresh by (induction acc) auto
  moreover have "n \<noteq> ''__proto__''" using Cons.prems(2) by auto
  ultimately have upd: "assignProperty acc n v = acc @ [(n, v)]"
    by (simp add: assignProperty_def)
  have "set ns \<inter> fst ` set (acc @ [(n, v)]) = {}" using Cons.prems by auto
  then show ?case using Cons.IH [of "acc @ [(n, v)]"] Cons.prems upd by simp
qed

lemma calculateStats_initial:
  "calculateStats (map (\<lambda>n. (n, initialEntry)) names) =
     \<lparr> totalFiles = length names, completed = 0, inProgress = 0, notStarted = length names,
       percentComplete = 0, totalWords = 0, translatedWords = 0, contributors = [] \<rparr>"
proof -
  have c: "foldl addContributor acc (map (\<lambda>n. initialEntry) names) = acc" for acc
    by (induction names) (simp_all add: addContributor_def initialEntry_def)
  have w: "sum_list (map (\<lambda>n. wordCount initialEntry) names) = 0"
    by (induction names) (simp_all add: initialEntry_def)
  show ?thesis
    by (simp add: calculateStats_def Let_def comp_def foldl_wordCount c w percent_zero)
      (simp add: initialEntry_def percent_zero)
qed

lemma createInitial_files:
  "distinct names \<Longrightarrow> ''__proto__'' \<notin> set names \<Longrightarrow>
   files (createInitialTranslationMetadata slug code lname dir coord names csha now) = map (\<lambda>n. (n, initialEntry)) names"
  using foldl_update_fresh [of names "[]" initialEntry]
  by (simp add: createInitialTranslationMetadata_def)

lemma createInitial_stats:
  "distinct names \<Longrightarrow> ''__proto__'' \<notin> set names \<Longrightarrow>
   stats (createInitialTranslationMetadata slug code lname dir coord names csha now)
     = calculateStats (files (createInitialTranslationMetadata slug code lname dir coord names csha now))"
  by (simp add: createInitial_files calculateStats_initial) (simp add: createInitialTranslationMetadata_def)

lemma updateFileMetadata_stats:
  "stats (updateFileMetadata m filename u t1 t2) = calculateStats (files (updateFileMetadata m filename u t1 t2))"
  by (simp add: updateFileMetadata_def Let_def)


lemma update_map_snd:
  "map_of fs n = Some e \<Longrightarrow>
   \<exists>xs ys. map snd fs = xs @ e # ys \<and> map snd (AList.update n e' fs) = xs @ e' # ys"
proof (induction fs)
  case Nil
  then show ?case by simp
next
  case (Cons p fs)
  show ?case
  proof (cases "fst p = n")
    case True
    then have "snd p = e" using Cons.prems by (cases p) simp
    then have "map snd (p # fs) = [] @ e # map snd fs
               \<and> map snd (AList.update n e' (p # fs)) = [] @ e' # map snd fs"
      using True by (cases p) simp
    then show ?thesis by blast
  next
    case False
    then have "map_of fs n = Some e" using Cons.prems by (cases p) (simp split: if_splits)
    then obtain xs ys where
      "map snd fs = xs @ e # ys" "map snd (AList.update n e' fs) = xs @ e' # ys"
      using Cons.IH by blast
    then have "map snd (p # fs) = (snd p # xs) @ e # ys
               \<and> map snd (AList.update n e' (p # fs)) = (snd p # xs) @ e' # ys"
      using False by (cases p) simp
    then show ?thesis by blast
  qed
qed

lemma foldl_addContributor_cong:
  "lastContributor e' = lastContributor e \<Longrightarrow>
   foldl addContributor acc (xs @ e' # ys) = foldl addContributor acc (xs @ e # ys)"
  by (simp add: addContributor_def)

lemma calculateStats_wordCount_update:
  assumes "map_of fs n = Some e" and "wordCount e = 0" and "status e \<noteq> Complete"
  shows "calculateStats (AList.update n (e\<lparr>wordCount := w\<rparr>) fs)
           = (calculateStats fs)\<lparr>totalWords := totalWords (calculateStats fs) + w\<rparr>"
proof -
  obtain xs ys where
    a: "map snd fs = xs @ e # ys" and
    b: "map snd (AList.update n (e\<lparr>wordCount := w\<rparr>) fs) = xs @ e\<lparr>wordCount := w\<rparr> # ys"
    using update_map_snd [OF assms(1)] by blast
  have c: "foldl addContributor [] (xs @ e\<lparr>wordCount := w\<rparr> # ys)
           = foldl addContributor [] (xs @ e # ys)"
    by (rule foldl_addContributor_cong) simp
  show ?thesis
    unfolding calculateStats_def Let_def a b c foldl_wordCount
    using assms(2,3) by simp
qed

lemma wordCountStep_keeps:
  assumes "stats m = calculateStats (files m)"
    and "map_of (files m) (fst sf) = Some e" and "wordCount e = 0" and "status e \<noteq> Complete"
  shows "stats (wordCountStep m sf) = calculateStats (files (wordCountStep m sf))"
proof (cases "snd sf")
  case None
  then show ?thesis using assms(1) by (simp add: wordCountStep_def)
next
  case (Some w)
  then show ?thesis
    using assms by (simp add: wordCountStep_def calculateStats_wordCount_update)
qed

lemma wordCountStep_other:
  "n \<noteq> fst sf \<Longrightarrow> map_of (files (wordCountStep m sf)) n = map_of (files m) n"
  by (simp add: wordCountStep_def update_conv' split: option.splits)

lemma wordCountPass_keeps:
  "distinct (map fst srcs) \<Longrightarrow>
   stats m = calculateStats (files m) \<Longrightarrow>
   (\<forall>n \<in> fst ` set srcs. \<exists>e. map_of (files m) n = Some e
        \<and> wordCount e = 0 \<and> status e \<noteq> Complete) \<Longrightarrow>
   stats (wordCountPass m srcs) = calculateStats (files (wordCountPass m srcs))"
proof (induction srcs arbitrary: m)
  case Nil
  then show ?case by (simp add: wordCountPass_def)
next
  case (Cons sf rest)
  obtain e where e: "map_of (files m) (fst sf) = Some e" "wordCount e = 0" "status e \<noteq> Complete"
    using Cons.prems(3) by auto
  have 1: "stats (wordCountStep m sf) = calculateStats (files (wordCountStep m sf))"
    using Cons.prems(2) e by (rule wordCountStep_keeps)
  have 2: "\<forall>n \<in> fst ` set rest. \<exists>e. map_of (files (wordCountStep m sf)) n = Some e
             \<and> wordCount e = 0 \<and> status e \<noteq> Complete"
  proof
    fix n
    assume n: "n \<in> fst ` set rest"
    with Cons.prems(1) have "n \<noteq> fst sf" by (auto simp: image_iff)
    then have "map_of (files (wordCountStep m sf)) n = map_of (files m) n"
      by (rule wordCountStep_other)
    then show "\<exists>e. map_of (files (wordCountStep m sf)) n = Some e
             \<and> wordCount e = 0 \<and> status e \<noteq> Complete"
      using Cons.prems(3) n by auto
  qed
  have "distinct (map fst rest)" using Cons.prems(1) by simp
  from Cons.IH [OF this 1 2] show ?case by (simp add: wordCountPass_def)
qed

lemma map_of_constant_entries:
  "n \<in> set ns \<Longrightarrow> map_of (map (\<lambda>k. (k, v)) ns) n = Some v"
  by (induction ns) auto

lemma initialize_wordCount_stats:
  assumes "distinct (map fst srcs)" and "''__proto__'' \<notin> fst ` set srcs"
  shows "stats (wordCountPass (createInitialTranslationMetadata slug code lname dir coord (map fst srcs) csha now) srcs)
     = calculateStats (files (wordCountPass (createInitialTranslationMetadata slug code lname dir coord (map fst srcs) csha now) srcs))"
proof (rule wordCountPass_keeps [OF assms(1)])
  have np: "''__proto__'' \<notin> set (map fst srcs)" using assms(2) by simp
  show "stats (createInitialTranslationMetadata slug code lname dir coord (map fst srcs) csha now)
        = calculateStats (files (createInitialTranslationMetadata slug code lname dir coord (map fst srcs) csha now))"
    using assms(1) np by (rule createInitial_stats)
  show "\<forall>n \<in> fst ` set srcs. \<exists>e.
          map_of (files (createInitialTranslationMetadata slug code lname dir coord (map fst srcs) csha now)) n = Some e
          \<and> wordCount e = 0 \<and> status e \<noteq> Complete"
  proof
    fix n
    assume "n \<in> fst ` set srcs"
    then have "n \<in> set (map fst srcs)" by simp
    then have "map_of (map (\<lambda>k. (k, initialEntry)) (map fst srcs)) n = Some initialEntry"
      by (rule map_of_constant_entries)
    then have "map_of (files (createInitialTranslationMetadata slug code lname dir coord (map fst srcs) csha now)) n
        = Some initialEntry"
      using assms(1) np by (simp add: createInitial_files)
    then show "\<exists>e.
          map_of (files (createInitialTranslationMetadata slug code lname dir coord (map fst srcs) csha now)) n = Some e
          \<and> wordCount e = 0 \<and> status e \<noteq> Complete"
      by (simp add: initialEntry_def)
  qed
qed

text \<open>
  C1 (amended). \<open>stats\<close> equals \<open>calculateStats\<close> of \<open>files\<close> in the document returned
  by every application of \<open>updateFileMetadata\<close> (any document, file name and partial
  update); in the document returned by \<open>createInitialTranslationMetadata\<close> when the file
  names are pairwise distinct and none of them is \<^verbatim>\<open>__proto__\<close>; and, for source files
  with such names, after the word-count pass of \<open>initializeLanguage\<close>, which adds each
  count to the file entry and to \<open>stats.totalWords\<close>.
\<close>

theorem stats_is_recomputation:
  "stats (updateFileMetadata m filename u t1 t2)
     = calculateStats (files (updateFileMetadata m filename u t1 t2))
   \<and> (distinct names \<and> ''__proto__'' \<notin> set names \<longrightarrow>
        stats (createInitialTranslationMetadata slug code lname dir coord names csha now)
          = calculateStats (files (createInitialTranslationMetadata slug code lname dir coord names csha now)))
   \<and> (distinct (map fst srcs) \<and> ''__proto__'' \<notin> fst ` set srcs \<longrightarrow>
        stats (wordCountPass (createInitialTranslationMetadata slug code lname dir coord (map fst srcs) csha now) srcs)
          = calculateStats (files (wordCountPass
              (createInitialTranslationMetadata slug code lname dir coord (map fst srcs) csha now) srcs)))"
proof (intro conjI impI)
  show "stats (updateFileMetadata m filename u t1 t2)
          = calculateStats (files (updateFileMetadata m filename u t1 t2))"
    by (rule updateFileMetadata_stats)
next
  assume "distinct names \<and> ''__proto__'' \<notin> set names"
  then show "stats (createInitialTranslationMetadata slug code lname dir coord names csha now)
          = calculateStats (files (createInitialTranslationMetadata slug code lname dir coord names csha now))"
    by (simp add: createInitial_stats)
next
  assume "distinct (map fst srcs) \<and> ''__proto__'' \<notin> fst ` set srcs"
  then show "stats (wordCountPass (createInitialTranslationMetadata slug code lname dir coord (map fst srcs) csha now) srcs)
          = calculateStats (files (wordCountPass
              (createInitialTranslationMetadata slug code lname dir coord (map fst srcs) csha now) srcs))"
    by (intro initialize_wordCount_stats) simp_all
qed

theorem stats_is_recomputation_witness:
  "distinct [''a.md'', ''b.md''] \<and> ''__proto__'' \<notin> set [''a.md'', ''b.md'']
   \<and> distinct (map fst [(''a.md'', Some (3::int)), (''b.md'', None)])
   \<and> ''__proto__'' \<notin> fst ` set [(''a.md'', Some (3::int)), (''b.md'', None)]
   \<and> stats (createInitialTranslationMetadata ''topten'' ''es-ES'' ''Spanish'' Ltr ''admin''
              [''a.md'', ''b.md''] ''abc123'' ''2025-01-01T00:00:00.000Z'')
       = calculateStats (files (createInitialTranslationMetadata ''topten'' ''es-ES'' ''Spanish'' Ltr
              ''admin'' [''a.md'', ''b.md''] ''abc123'' ''2025-01-01T00:00:00.000Z''))
   \<and> stats (wordCountPass (createInitialTranslationMetadata ''topten'' ''es-ES'' ''Spanish'' Ltr
              ''admin'' (map fst [(''a.md'', Some (3::int)), (''b.md'', None)]) ''abc123''
              ''2025-01-01T00:00:00.000Z'') [(''a.md'', Some 3), (''b.md'', None)])
       = calculateStats (files (wordCountPass (createInitialTranslationMetadata ''topten'' ''es-ES''
              ''Spanish'' Ltr ''admin'' (map fst [(''a.md'', Some (3::int)), (''b.md'', None)])
              ''abc123'' ''2025-01-01T00:00:00.000Z'') [(''a.md'', Some 3), (''b.md'', None)]))
   \<and> totalWords (stats (wordCountPass (createInitialTranslationMetadata ''topten'' ''es-ES''
              ''Spanish'' Ltr ''admin'' (map fst [(''a.md'', Some (3::int)), (''b.md'', None)])
              ''abc123'' ''2025-01-01T00:00:00.000Z'') [(''a.md'', Some 3), (''b.md'', None)])) = 3"
proof -
  have d1: "distinct [''a.md'', ''b.md''] \<and> ''__proto__'' \<notin> set [''a.md'', ''b.md'']" by simp
  have d2: "distinct (map fst [(''a.md'', Some (3::int)), (''b.md'', None)])
            \<and> ''__proto__'' \<notin> fst ` set [(''a.md'', Some (3::int)), (''b.md'', None)]" by simp
  have w: "totalWords (stats (wordCountPass (createInitialTranslationMetadata ''topten'' ''es-ES''
              ''Spanish'' Ltr ''admin'' (map fst [(''a.md'', Some (3::int)), (''b.md'', None)])
              ''abc123'' ''2025-01-01T00:00:00.000Z'') [(''a.md'', Some 3), (''b.md'', None)])) = 3"
    by (simp add: wordCountPass_def wordCountStep_def createInitialTranslationMetadata_def
        assignProperty_def)
  show ?thesis
    using d1 d2 w
      stats_is_recomputation [of _ _ _ _ _ "[''a.md'', ''b.md'']" "''topten''" "''es-ES''"
        "''Spanish''" Ltr "''admin''" "''abc123''" "''2025-01-01T00:00:00.000Z''"
        "[(''a.md'', Some 3), (''b.md'', None)]"]
    by blast
qed

text \<open>
  C1 as stated fails for \<open>createInitialTranslationMetadata\<close>, which writes
  \<open>totalFiles = files.length\<close> by hand: with a file name listed twice the mapping has one
  entry where \<open>stats\<close> counts two, and the name \<^verbatim>\<open>__proto__\<close> is counted in \<open>stats\<close>
  while its assignment sets the prototype of the mapping and adds no entry. The word-count
  pass then adds the count of \<^verbatim>\<open>__proto__\<close> to \<open>stats.totalWords\<close> with no entry to
  hold it.
\<close>

theorem createInitial_stats_counterexample:
  "stats (createInitialTranslationMetadata ''topten'' ''es-ES'' ''Spanish'' Ltr ''admin''
            [''a.md'', ''a.md''] ''abc123'' ''2025-01-01T00:00:00.000Z'')
     \<noteq> calculateStats (files (createInitialTranslationMetadata ''topten'' ''es-ES'' ''Spanish'' Ltr
            ''admin'' [''a.md'', ''a.md''] ''abc123'' ''2025-01-01T00:00:00.000Z''))
   \<and> stats (createInitialTranslationMetadata ''topten'' ''es-ES'' ''Spanish'' Ltr ''admin''
            [''__proto__''] ''abc123'' ''2025-01-01T00:00:00.000Z'')
     \<noteq> calculateStats (files (createInitialTranslationMetadata ''topten'' ''es-ES'' ''Spanish'' Ltr
            ''admin'' [''__proto__''] ''abc123'' ''2025-01-01T00:00:00.000Z''))
   \<and> stats (wordCountPass (createInitialTranslationMetadata ''topten'' ''es-ES'' ''Spanish'' Ltr
            ''admin'' [''__proto__''] ''abc123'' ''2025-01-01T00:00:00.000Z'')
          [(''__proto__'', Some 7)])
     \<noteq> calculateStats (files (wordCountPass (createInitialTranslationMetadata ''topten'' ''es-ES''
            ''Spanish'' Ltr ''admin'' [''__proto__''] ''abc123'' ''2025-01-01T00:00:00.000Z'')
          [(''__proto__'', Some 7)]))"
proof -
  let ?dup = "createInitialTranslationMetadata ''topten'' ''es-ES'' ''Spanish'' Ltr ''admin''
            [''a.md'', ''a.md''] ''abc123'' ''2025-01-01T00:00:00.000Z''"
  let ?pro = "createInitialTranslationMetadata ''topten'' ''es-ES'' ''Spanish'' Ltr ''admin''
            [''__proto__''] ''abc123'' ''2025-01-01T00:00:00.000Z''"
  let ?cnt = "wordCountPass ?pro [(''__proto__'', Some 7)]"
  have "totalFiles (stats ?dup) = 2"
    by (simp add: createInitialTranslationMetadata_def)
  moreover have "totalFiles (calculateStats (files ?dup)) = 1"
    by (simp add: createInitialTranslationMetadata_def assignProperty_def calculateStats_def)
  ultimately have a: "stats ?dup \<noteq> calculateStats (files ?dup)"
    by (metis numeral_eq_one_iff semiring_norm(85))
  have "totalFiles (stats ?pro) = 1"
    by (simp add: createInitialTranslationMetadata_def)
  moreover have "totalFiles (calculateStats (files ?pro)) = 0"
    by (simp add: createInitialTranslationMetadata_def assignProperty_def calculateStats_def)
  ultimately have b: "stats ?pro \<noteq> calculateStats (files ?pro)"
    by (metis zero_neq_one)
  have "totalFiles (stats ?cnt) = 1"
    by (simp add: createInitialTranslationMetadata_def assignProperty_def wordCountPass_def
        wordCountStep_def objectPrototypeMembers_def)
  moreover have "totalFiles (calculateStats (files ?cnt)) = 0"
    by (simp add: createInitialTranslationMetadata_def assignProperty_def wordCountPass_def
        wordCountStep_def objectPrototypeMembers_def calculateStats_def)
  ultimately have c: "stats ?cnt \<noteq> calculateStats (files ?cnt)"
    by (metis zero_neq_one)
  show ?thesis using a b c by blast
qed

section \<open>Properties of the sync status and of the file name sanitiser\<close>

text \<open>
  C5. The status \<open>checkForkSyncStatus\<close> reports is a function of the pair
  \<open>(behindBy, aheadBy)\<close> it reports (the counts of the comparison, 0 when missing):
  \<open>(0, 0)\<close> is identical, \<open>(> 0, 0)\<close> behind, \<open>(0, > 0)\<close> ahead and \<open>(> 0, > 0)\<close>
  diverged; \<open>(5, 0)\<close> is behind and \<open>(2, 3)\<close> diverged.
\<close>

theorem syncStatus_classification:
  "\<exists>r. checkForkSyncStatus (Inr d) = Inr r
       \<and> behindBy r = orZero (behind_by d) \<and> aheadBy r = orZero (ahead_by d)
       \<and> (behindBy r = 0 \<and> aheadBy r = 0 \<longrightarrow> syncStatus r = Identical)
       \<and> (behindBy r > 0 \<and> aheadBy r = 0 \<longrightarrow> syncStatus r = Behind)
       \<and> (behindBy r = 0 \<and> aheadBy r > 0 \<longrightarrow> syncStatus r = Ahead)
       \<and> (behindBy r > 0 \<and> aheadBy r > 0 \<longrightarrow> syncStatus r = Diverged)
       \<and> (behindBy r = 5 \<and> aheadBy r = 0 \<longrightarrow> syncStatus r = Behind)
       \<and> (behindBy r = 2 \<and> aheadBy r = 3 \<longrightarrow> syncStatus r = Diverged)"
  by (simp add: checkForkSyncStatus_def Let_def)

theorem syncStatus_classification_witness:
  "(\<exists>r. checkForkSyncStatus (Inr \<lparr>behind_by = Some 5, ahead_by = None, api_commits = None\<rparr>) = Inr r
        \<and> behindBy r = 5 \<and> aheadBy r = 0 \<and> syncStatus r = Behind)
   \<and> (\<exists>r. checkForkSyncStatus (Inr \<lparr>behind_by = Some 2, ahead_by = Some 3, api_commits = Some []\<rparr>) = Inr r
        \<and> behindBy r = 2 \<and> aheadBy r = 3 \<and> syncStatus r = Diverged)"
proof
  obtain r where
    "checkForkSyncStatus (Inr \<lparr>behind_by = Some 5, ahead_by = None, api_commits = None\<rparr>) = Inr r"
    "behindBy r = orZero (Some 5)" "aheadBy r = orZero None"
    "behindBy r = 5 \<and> aheadBy r = 0 \<longrightarrow> syncStatus r = Behind"
    using syncStatus_classification [of "\<lparr>behind_by = Some 5, ahead_by = None, api_commits = None\<rparr>"]
    by auto
  then show "\<exists>r. checkForkSyncStatus (Inr \<lparr>behind_by = Some 5, ahead_by = None, api_commits = None\<rparr>) = Inr r
        \<and> behindBy r = 5 \<and> aheadBy r = 0 \<and> syncStatus r = Behind"
    by (simp add: orZero_def)
next
  obtain r where
    "checkForkSyncStatus (Inr \<lparr>behind_by = Some 2, ahead_by = Some 3, api_commits = Some []\<rparr>) = Inr r"
    "behindBy r = orZero (Some 2)" "aheadBy r = orZero (Some 3)"
    "behindBy r = 2 \<and> aheadBy r = 3 \<longrightarrow> syncStatus r = Diverged"
    using syncStatus_classification [of "\<lparr>behind_by = Some 2, ahead_by = Some 3, api_commits = Some []\<rparr>"]
    by auto
  then show "\<exists>r. checkForkSyncStatus (Inr \<lparr>behind_by = Some 2, ahead_by = Some 3, api_commits = Some []\<rparr>) = Inr r
        \<and> behindBy r = 2 \<and> aheadBy r = 3 \<and> syncStatus r = Diverged"
    by (simp add: orZero_def)
qed

text \<open>
  C6. \<open>sanitizeFilename\<close> rejects \<^verbatim>\<open>../../etc/passwd\<close> with the path-traversal error:
  the base name \<^verbatim>\<open>passwd\<close> differs from the input, and is not returned.
\<close>

theorem sanitizeFilename_rejects_traversal:
  "sanitizeFilename ''../../etc/passwd'' = Inl PathTraversal
   \<and> basename ''../../etc/passwd'' = ''passwd''
   \<and> sanitizeFilename ''../../etc/passwd'' \<noteq> Inr ''passwd''"
  by (simp add: sanitizeFilename_def basename_def slash_def)

section \<open>Properties of the request wrapper\<close>

lemma requestLoop_resolved:
  "attempt < maxAttempts \<Longrightarrow> fn attempt = Resolved v \<Longrightarrow>
   requestLoop client fn maxAttempts attempt = (Inr v, attempt + 1, [])"
  by (subst requestLoop.simps) simp

lemma requestLoop_retry:
  "attempt + 1 < maxAttempts \<Longrightarrow> fn attempt = Rejected st \<Longrightarrow> isRetryableStatus (orNat st 0) \<Longrightarrow>
   following = attempt + 1 \<Longrightarrow> delay = 2 ^ attempt * retryDelay client \<Longrightarrow>
   requestLoop client fn maxAttempts following = (result, calls, delays) \<Longrightarrow>
   requestLoop client fn maxAttempts attempt = (result, calls, delay # delays)"
  by (subst requestLoop.simps) auto

lemma requestLoop_surface:
  "attempt < maxAttempts \<Longrightarrow> fn attempt = Rejected st \<Longrightarrow>
   \<not> isRetryableStatus (orNat st 0) \<or> attempt = maxAttempts - 1 \<Longrightarrow>
   requestLoop client fn maxAttempts attempt = (Inl (handleError st), attempt + 1, [])"
  by (subst requestLoop.simps) auto

lemma retryable_500: "isRetryableStatus (orNat (Some 500) 0)"
  by (simp add: isRetryableStatus_def orNat_def)

lemma not_retryable_404: "\<not> isRetryableStatus (orNat (Some 404) 0)"
  by (simp add: isRetryableStatus_def orNat_def)

lemma handleError_500:
  "handleError (Some 500) = GitHubError 500 ''GitHub is experiencing issues. Your work is saved locally.''"
  by (simp add: handleError_def orNat_def userMessages_def)

lemma handleError_404:
  "handleError (Some 404) = GitHubError 404 ''File or repository not found. Please sync your fork.''"
  by (simp add: handleError_def orNat_def userMessages_def)

lemma default_budget:
  "maxRetries (newGitHubClient \<lparr>opt_maxRetries = None, opt_retryDelay = None\<rparr>) = 3"
  "retryDelay (newGitHubClient \<lparr>opt_maxRetries = None, opt_retryDelay = None\<rparr>) = 1000"
  by (simp_all add: newGitHubClient_def orNat_def)

lemma budget_positive: "0 < maxRetries (newGitHubClient options)"
  by (simp add: newGitHubClient_def orNat_def split: option.splits)

text \<open>
  C4 (amended). Under the default retry budget, which is three attempts, an operation
  that fails with status 500 twice and succeeds on the 3rd attempt surfaces the success
  after exactly 3 calls, and one that fails with status 500 three times surfaces a typed
  \<open>GitHubError\<close> after exactly 3 calls. Under a budget of at least four attempts, three
  failures with status 500 followed by a success surface the success after exactly 4
  calls. An operation that fails with status 404 surfaces a typed \<open>GitHubError\<close> after
  exactly 1 call, with no retry, under every budget a client can have.
\<close>

theorem request_retry_policy:
  "(fn 0 = Rejected (Some 500) \<and> fn 1 = Rejected (Some 500) \<and> fn 2 = Resolved v \<longrightarrow>
      request (newGitHubClient \<lparr>opt_maxRetries = None, opt_retryDelay = None\<rparr>) fn None
        = (Inr v, 3, [1000, 2000]))
   \<and> (fn 0 = Rejected (Some 500) \<and> fn 1 = Rejected (Some 500) \<and> fn 2 = Rejected (Some 500) \<longrightarrow>
      request (newGitHubClient \<lparr>opt_maxRetries = None, opt_retryDelay = None\<rparr>) fn None
        = (Inl (GitHubError 500 ''GitHub is experiencing issues. Your work is saved locally.''),
           3, [1000, 2000]))
   \<and> (fn 0 = Rejected (Some 500) \<and> fn 1 = Rejected (Some 500) \<and> fn 2 = Rejected (Some 500)
        \<and> fn 3 = Resolved v \<and> 4 \<le> budget \<longrightarrow>
      request (newGitHubClient \<lparr>opt_maxRetries = Some budget, opt_retryDelay = None\<rparr>) fn None
        = (Inr v, 4, [1000, 2000, 4000]))
   \<and> (fn 0 = Rejected (Some 404) \<longrightarrow>
      request (newGitHubClient options) fn None
        = (Inl (GitHubError 404 ''File or repository not found. Please sync your fork.''), 1, []))"
proof (intro conjI impI)
  let ?c = "newGitHubClient \<lparr>opt_maxRetries = None, opt_retryDelay = None\<rparr>"
  {
    assume a: "fn 0 = Rejected (Some 500) \<and> fn 1 = Rejected (Some 500) \<and> fn 2 = Resolved v"
    have 2: "requestLoop ?c fn 3 2 = (Inr v, 3, [])"
      using a requestLoop_resolved [of 2 3 fn v ?c] by simp
    have 1: "requestLoop ?c fn 3 1 = (Inr v, 3, [2000])"
      by (rule requestLoop_retry [where st="Some 500" and following=2]) (use a 2 retryable_500 in \<open>simp_all add: default_budget\<close>)
    have 0: "requestLoop ?c fn 3 0 = (Inr v, 3, [1000, 2000])"
      by (rule requestLoop_retry [where st="Some 500" and following=1]) (use a 1 retryable_500 in \<open>simp_all add: default_budget\<close>)
    show "request ?c fn None = (Inr v, 3, [1000, 2000])"
      using 0 by (simp add: request_def default_budget)
  }
  {
    assume a: "fn 0 = Rejected (Some 500) \<and> fn 1 = Rejected (Some 500) \<and> fn 2 = Rejected (Some 500)"
    have 2: "requestLoop ?c fn 3 2 = (Inl (handleError (Some 500)), 3, [])"
      using a requestLoop_surface [of 2 3 fn "Some 500" ?c] by simp
    have 1: "requestLoop ?c fn 3 1 = (Inl (handleError (Some 500)), 3, [2000])"
      by (rule requestLoop_retry [where st="Some 500" and following=2]) (use a 2 retryable_500 in \<open>simp_all add: default_budget\<close>)
    have 0: "requestLoop ?c fn 3 0 = (Inl (handleError (Some 500)), 3, [1000, 2000])"
      by (rule requestLoop_retry [where st="Some 500" and following=1]) (use a 1 retryable_500 in \<open>simp_all add: default_budget\<close>)
    show "request ?c fn None
        = (Inl (GitHubError 500 ''GitHub is experiencing issues. Your work is saved locally.''),
           3, [1000, 2000])"
      using 0 by (simp add: request_def default_budget handleError_500)
  }
  {
    let ?d = "newGitHubClient \<lparr>opt_maxRetries = Some budget, opt_retryDelay = None\<rparr>"
    assume a: "fn 0 = Rejected (Some 500) \<and> fn 1 = Rejected (Some 500) \<and> fn 2 = Rejected (Some 500)
        \<and> fn 3 = Resolved v \<and> 4 \<le> budget"
    have m: "maxRetries ?d = budget" "retryDelay ?d = 1000"
      using a by (simp_all add: newGitHubClient_def orNat_def)
    have 3: "requestLoop ?d fn budget 3 = (Inr v, 4, [])"
      using a requestLoop_resolved [of 3 budget fn v ?d] by simp
    have 2: "requestLoop ?d fn budget 2 = (Inr v, 4, [4000])"
      by (rule requestLoop_retry [where st="Some 500" and following=3]) (use a 3 retryable_500 in \<open>simp_all add: m\<close>)
    have 1: "requestLoop ?d fn budget 1 = (Inr v, 4, [2000, 4000])"
      by (rule requestLoop_retry [where st="Some 500" and following=2]) (use a 2 retryable_500 in \<open>simp_all add: m\<close>)
    have 0: "requestLoop ?d fn budget 0 = (Inr v, 4, [1000, 2000, 4000])"
      by (rule requestLoop_retry [where st="Some 500" and following=1]) (use a 1 retryable_500 in \<open>simp_all add: m\<close>)
    show "request ?d fn None = (Inr v, 4, [1000, 2000, 4000])"
      using 0 by (simp add: request_def m)
  }
  {
    assume a: "fn 0 = Rejected (Some 404)"
    show "request (newGitHubClient options) fn None
        = (Inl (GitHubError 404 ''File or repository not found. Please sync your fork.''), 1, [])"
      using a requestLoop_surface [of 0 "maxRetries (newGitHubClient options)" fn "Some 404"
          "newGitHubClient options"] budget_positive [of options] not_retryable_404
      by (simp add: request_def handleError_404)
  }
qed

theorem request_retry_policy_witness:
  "request (newGitHubClient \<lparr>opt_maxRetries = Some 5, opt_retryDelay = None\<rparr>) failsThrice None
     = (Inr ''ok'', 4, [1000, 2000, 4000])
   \<and> request (newGitHubClient \<lparr>opt_maxRetries = None, opt_retryDelay = None\<rparr>) failsThrice None
     = (Inl (GitHubError 500 ''GitHub is experiencing issues. Your work is saved locally.''),
           3, [1000, 2000])
   \<and> request (newGitHubClient \<lparr>opt_maxRetries = None, opt_retryDelay = None\<rparr>)
        (\<lambda>k. if k < 2 then Rejected (Some 500) else Resolved ''ok'') None
     = (Inr ''ok'', 3, [1000, 2000])
   \<and> request (newGitHubClient \<lparr>opt_maxRetries = None, opt_retryDelay = None\<rparr>)
        (\<lambda>k. Rejected (Some 404) :: string Outcome) None
     = (Inl (GitHubError 404 ''File or repository not found. Please sync your fork.''), 1, [])"
  using request_retry_policy [of failsThrice "''ok''" 5]
    request_retry_policy [of "\<lambda>k. if k < 2 then Rejected (Some 500) else Resolved ''ok''" "''ok''"]
    request_retry_policy [of "\<lambda>k. Rejected (Some 404) :: string Outcome" _ _
      "\<lparr>opt_maxRetries = None, opt_retryDelay = None\<rparr>"]
  by (simp add: failsThrice_def)

text \<open>
  C4 as stated fails: the default client makes three attempts, so after three failures
  with status 500 it surfaces the error and never makes the 4th call, which would succeed.
\<close>

theorem request_default_budget_counterexample:
  "request (newGitHubClient \<lparr>opt_maxRetries = None, opt_retryDelay = None\<rparr>) failsThrice None
     = (Inl (GitHubError 500 ''GitHub is experiencing issues. Your work is saved locally.''),
        3, [1000, 2000])
   \<and> failsThrice 3 = Resolved ''ok''"
  by code_simp

section \<open>Properties of the rate limiter\<close>

lemma runCalls_live:
  "store identifier = Some e \<Longrightarrow> list_all (\<lambda>t. \<not> resetAt e < t) calls \<Longrightarrow>
   map success (runCalls store identifier lmt windowMs calls)
     = map (\<lambda>i. \<not> count e + 1 + int i > lmt) [0..<length calls]"
proof (induction calls arbitrary: store e)
  case Nil
  show ?case by simp
next
  case (Cons now later)
  let ?e' = "e\<lparr>count := count e + 1\<rparr>"
  let ?store' = "store(identifier \<mapsto> ?e')"
  have live: "\<not> resetAt e < now" using Cons.prems(2) by simp
  have step: "snd (checkRateLimit store now identifier lmt windowMs) = ?store'"
    "success (fst (checkRateLimit store now identifier lmt windowMs)) = (\<not> count e + 1 > lmt)"
    using Cons.prems(1) live by (simp_all add: checkRateLimit_def Let_def)
  have "?store' identifier = Some ?e'" by simp
  moreover have "list_all (\<lambda>t. \<not> resetAt ?e' < t) later" using Cons.prems(2) by simp
  ultimately have IH: "map success (runCalls ?store' identifier lmt windowMs later)
     = map (\<lambda>i. \<not> count ?e' + 1 + int i > lmt) [0..<length later]"
    by (rule Cons.IH)
  have shift: "map (\<lambda>i. \<not> count e + 1 + int i > lmt) [0..<length (now # later)]
      = (\<not> count e + 1 > lmt) # map (\<lambda>i. \<not> count ?e' + 1 + int i > lmt) [0..<length later]"
    by (simp add: upt_conv_Cons map_Suc_upt [symmetric] del: upt_Suc) (simp add: algebra_simps)
  show ?case
    unfolding shift using step IH
    by (cases "checkRateLimit store now identifier lmt windowMs") simp
qed


lemma threshold_count:
  "length (filter (\<lambda>i. k + int i \<le> m) [0..<n]) = min n (nat (m - k + 1))"
  by (induction n) auto

lemma success_count:
  "length (filter success rs) = length (filter (\<lambda>b. b) (map success rs))"
  by (induction rs) simp_all

lemma live_flags_count:
  assumes "map success rs = map (\<lambda>i. \<not> k + int i > m) [0..<n]"
  shows "length (filter success rs) \<le> nat (m - k + 1)"
proof -
  have "length (filter success rs) = length (filter (\<lambda>i. k + int i \<le> m) [0..<n])"
    unfolding success_count assms by (simp add: filter_map comp_def not_less)
  then show ?thesis by (simp add: threshold_count)
qed

lemma live_flags_nth:
  assumes "map success rs = map (\<lambda>i. \<not> k + int i > m) [0..<n]" and "j < length rs"
  shows "success (rs ! j) = (\<not> k + int j > m)"
proof -
  have len: "length rs = n"
  proof -
    have "length (map success rs) = length (map (\<lambda>i. \<not> k + int i > m) [0..<n])"
      by (simp only: assms(1))
    then show ?thesis by simp
  qed
  have "success (rs ! j) = map success rs ! j" using assms(2) by simp
  also have "\<dots> = map (\<lambda>i. \<not> k + int i > m) [0..<n] ! j" by (simp only: assms(1))
  also have "\<dots> = (\<not> k + int j > m)" using assms(2) len by simp
  finally show ?thesis .
qed

lemma live_flags_mono:
  assumes "map success rs = map (\<lambda>i. \<not> k + int i > m) [0..<n]"
    and "i < j" and "j < length rs" and "\<not> success (rs ! i)"
  shows "\<not> success (rs ! j)"
proof -
  have "i < length rs" using assms(2,3) by simp
  then have "success (rs ! i) = (\<not> k + int i > m)" by (rule live_flags_nth [OF assms(1)])
  moreover have "success (rs ! j) = (\<not> k + int j > m)" by (rule live_flags_nth [OF assms(1,3)])
  ultimately show ?thesis using assms(2,4) by simp
qed

lemma entryOk_empty: "entryOk Map.empty identifier"
  by (simp add: entryOk_def)

lemma entryOk_checkRateLimit:
  "entryOk store identifier \<Longrightarrow>
   entryOk (snd (checkRateLimit store now other lmt windowMs)) identifier"
  by (auto simp: entryOk_def checkRateLimit_def Let_def split: option.splits)


text \<open>
  C10 (amended). For every identifier, limit and window length, in any sequence of
  \<open>checkRateLimit\<close> calls for the same identifier in which no call after the first finds
  the window expired, at most \<open>max limit 1\<close> calls return \<open>success = true\<close> (the call
  that opens a window succeeds whatever the limit is), and once a call returns
  \<open>success = false\<close> every later call of the sequence returns \<open>success = false\<close>. The
  store is any store whose entry for the identifier has counted at least one call, as
  every store reached from the empty one has.
\<close>

theorem rateLimit_window:
  assumes ok: "entryOk store identifier"
    and win: "sameWindow store identifier lmt windowMs calls"
  shows "length (filter success (runCalls store identifier lmt windowMs calls)) \<le> nat (max lmt 1)
    \<and> (\<forall>i j. i < j \<and> j < length calls
           \<and> \<not> success (runCalls store identifier lmt windowMs calls ! i)
         \<longrightarrow> \<not> success (runCalls store identifier lmt windowMs calls ! j))"
proof (cases calls)
  case Nil
  then show ?thesis by simp
next
  case (Cons now later)
  have len: "length (runCalls store identifier lmt windowMs cs) = length cs" for cs store
    by (induction cs arbitrary: store) (simp_all split: prod.splits)
  show ?thesis
  proof (cases "case store identifier of None \<Rightarrow> True | Some e \<Rightarrow> resetAt e < now")
    case True
    let ?e = "\<lparr> count = 1, resetAt = now + windowMs \<rparr>"
    let ?store' = "store(identifier \<mapsto> ?e)"
    have first: "checkRateLimit store now identifier lmt windowMs
        = (\<lparr> success = True, limit = lmt, remaining = lmt - 1, reset = now + windowMs \<rparr>, ?store')"
      using True by (simp add: checkRateLimit_def split: option.splits)
    have "list_all (\<lambda>t. \<not> resetAt ?e < t) later"
      using win Cons first by (simp add: sameWindow_def)
    then have flags: "map success (runCalls ?store' identifier lmt windowMs later)
        = map (\<lambda>i. \<not> 2 + int i > lmt) [0..<length later]"
      using runCalls_live [where store="?store'" and e="?e" and calls=later] by simp
    let ?rest = "runCalls ?store' identifier lmt windowMs later"
    have rs: "runCalls store identifier lmt windowMs calls
        = \<lparr> success = True, limit = lmt, remaining = lmt - 1, reset = now + windowMs \<rparr> # ?rest"
      using Cons first by simp
    have "length (filter success ?rest) \<le> nat (lmt - 2 + 1)"
      using flags by (rule live_flags_count)
    then have count: "length (filter success (runCalls store identifier lmt windowMs calls))
        \<le> nat (max lmt 1)"
      unfolding rs by simp
    have mono: "\<not> success (runCalls store identifier lmt windowMs calls ! j)"
      if "i < j" "j < length calls" "\<not> success (runCalls store identifier lmt windowMs calls ! i)"
      for i j
    proof -
      from that(3) have "i \<noteq> 0" unfolding rs by (cases i) simp_all
      then obtain i' where i: "i = Suc i'" by (cases i) simp_all
      from that(1) i obtain j' where j: "j = Suc j'" by (cases j) simp_all
      have "i' < j'" "j' < length ?rest" "\<not> success (?rest ! i')"
        using that i j Cons unfolding rs by (simp_all add: len)
      then have "\<not> success (?rest ! j')" using live_flags_mono [OF flags] by blast
      then show ?thesis unfolding rs j by simp
    qed
    show ?thesis using count mono by blast
  next
    case False
    then obtain e where e: "store identifier = Some e" and live: "\<not> resetAt e < now"
      by (cases "store identifier") simp_all
    have c: "1 \<le> count e" using ok e by (simp add: entryOk_def)
    have "reset (fst (checkRateLimit store now identifier lmt windowMs)) = resetAt e"
      using e live by (simp add: checkRateLimit_def Let_def)
    then have "list_all (\<lambda>t. \<not> resetAt e < t) calls"
      using win Cons live by (simp add: sameWindow_def)
    then have flags: "map success (runCalls store identifier lmt windowMs calls)
        = map (\<lambda>i. \<not> count e + 1 + int i > lmt) [0..<length calls]"
      using runCalls_live [where store=store and e=e and calls=calls] e by blast
    have "length (filter success (runCalls store identifier lmt windowMs calls))
        \<le> nat (lmt - (count e + 1) + 1)"
      using flags by (rule live_flags_count)
    then have count: "length (filter success (runCalls store identifier lmt windowMs calls))
        \<le> nat (max lmt 1)"
      using c by simp
    have mono: "\<not> success (runCalls store identifier lmt windowMs calls ! j)"
      if "i < j" "j < length calls" "\<not> success (runCalls store identifier lmt windowMs calls ! i)"
      for i j
      using live_flags_mono [OF flags that(1) _ that(3)] that(2) by (simp add: len)
    show ?thesis using count mono by blast
  qed
qed


theorem rateLimit_window_witness:
  "entryOk Map.empty ''user-1''
   \<and> sameWindow Map.empty ''user-1'' 2 1000 [0, 10, 20, 1000]
   \<and> map success (runCalls Map.empty ''user-1'' 2 1000 [0, 10, 20, 1000]) = [True, True, False, False]
   \<and> length (filter success (runCalls Map.empty ''user-1'' 2 1000 [0, 10, 20, 1000])) \<le> nat (max 2 1)"
proof -
  have a: "entryOk Map.empty ''user-1''" by (simp add: entryOk_def)
  have b: "sameWindow Map.empty ''user-1'' 2 1000 [0, 10, 20, 1000]"
    by (simp add: sameWindow_def checkRateLimit_def)
  have c: "map success (runCalls Map.empty ''user-1'' 2 1000 [0, 10, 20, 1000]) = [True, True, False, False]"
    by (simp add: checkRateLimit_def Let_def)
  show ?thesis using a b c rateLimit_window [OF a b] by blast
qed

text \<open>
  C10 as stated fails for a limit of 0: the call that opens the window returns
  \<open>success = true\<close> without comparing the count with the limit.
\<close>

theorem rateLimit_zero_limit_counterexample:
  "sameWindow Map.empty ''user-1'' 0 1000 [0]
   \<and> map success (runCalls Map.empty ''user-1'' 0 1000 [0]) = [True]
   \<and> \<not> length (filter success (runCalls Map.empty ''user-1'' 0 1000 [0])) \<le> nat 0"
  by (simp add: sameWindow_def checkRateLimit_def)

section \<open>Properties of updateFileMetadata\<close>

lemma updateFileMetadata_files:
  "files (updateFileMetadata m filename u t1 t2)
     = AList.update filename
         ((spreadUpdates (case map_of (files m) filename of None \<Rightarrow> defaultEntry | Some e \<Rightarrow> e) u)
            \<lparr>lastUpdated := Some t1\<rparr>)
         (files m)"
  by (cases "map_of (files m) filename") (simp_all add: updateFileMetadata_def Let_def update_conv')

lemma updateFileMetadata_entry:
  "map_of (files (updateFileMetadata m filename u t1 t2)) filename
     = Some ((spreadUpdates (case map_of (files m) filename of None \<Rightarrow> defaultEntry | Some e \<Rightarrow> e) u)
            \<lparr>lastUpdated := Some t1\<rparr>)"
  by (simp add: updateFileMetadata_files update_conv')

lemma updateFileMetadata_other:
  "k \<noteq> filename \<Longrightarrow>
   map_of (files (updateFileMetadata m filename u t1 t2)) k = map_of (files m) k"
  by (simp add: updateFileMetadata_files update_conv')

lemma spreadUpdates_twice:
  "(spreadUpdates ((spreadUpdates e u)\<lparr>lastUpdated := x\<rparr>) u)\<lparr>lastUpdated := y\<rparr>
     = (spreadUpdates e u)\<lparr>lastUpdated := y\<rparr>"
  by (simp add: spreadUpdates_def orElse_def split: option.splits)

lemma calculateStats_same_content:
  assumes "map_of fs n = Some e" and "status e' = status e" and "wordCount e' = wordCount e"
    and "lastContributor e' = lastContributor e"
  shows "calculateStats (AList.update n e' fs) = calculateStats fs"
proof -
  obtain xs ys where
    a: "map snd fs = xs @ e # ys" and
    b: "map snd (AList.update n e' fs) = xs @ e' # ys"
    using update_map_snd [OF assms(1)] by blast
  have c: "foldl addContributor [] (xs @ e' # ys) = foldl addContributor [] (xs @ e # ys)"
    using assms(4) by (rule foldl_addContributor_cong)
  show ?thesis
    unfolding calculateStats_def Let_def a b c foldl_wordCount
    using assms(2,3) by simp
qed

text \<open>
  C7 (amended). Applying \<open>updateFileMetadata\<close> twice in a row with the same file name
  and the same partial update yields, in the second result, a file entry equal to that of
  the first result in every field except \<open>lastUpdated\<close>, the same other entries and the
  same \<open>stats\<close>. The timestamps of each result (the entry's \<open>lastUpdated\<close> and the
  document's) are the readings of the clock taken by that application, so they advance
  between the two applications exactly as far as the clock does.
\<close>

theorem updateFileMetadata_twice:
  "(\<exists>e1. map_of (files (updateFileMetadata m filename u t1 t2)) filename = Some e1
         \<and> lastUpdated e1 = Some t1
         \<and> files (updateFileMetadata (updateFileMetadata m filename u t1 t2) filename u t3 t4)
             = AList.update filename (e1\<lparr>lastUpdated := Some t3\<rparr>)
                 (files (updateFileMetadata m filename u t1 t2)))
   \<and> stats (updateFileMetadata (updateFileMetadata m filename u t1 t2) filename u t3 t4)
       = stats (updateFileMetadata m filename u t1 t2)
   \<and> docLastUpdated (updateFileMetadata m filename u t1 t2) = t2
   \<and> docLastUpdated (updateFileMetadata (updateFileMetadata m filename u t1 t2) filename u t3 t4) = t4"
proof -
  let ?r1 = "updateFileMetadata m filename u t1 t2"
  let ?r2 = "updateFileMetadata ?r1 filename u t3 t4"
  let ?e = "case map_of (files m) filename of None \<Rightarrow> defaultEntry | Some e \<Rightarrow> e"
  let ?e1 = "(spreadUpdates ?e u)\<lparr>lastUpdated := Some t1\<rparr>"
  have e1: "map_of (files ?r1) filename = Some ?e1" by (rule updateFileMetadata_entry)
  have f2: "files ?r2 = AList.update filename (?e1\<lparr>lastUpdated := Some t3\<rparr>) (files ?r1)"
    unfolding updateFileMetadata_files [of ?r1] e1 by (simp add: spreadUpdates_twice)
  have "calculateStats (files ?r2) = calculateStats (files ?r1)"
    unfolding f2 by (rule calculateStats_same_content [OF e1]) simp_all
  then have s: "stats ?r2 = stats ?r1" by (simp add: updateFileMetadata_stats)
  have d: "docLastUpdated ?r1 = t2" "docLastUpdated ?r2 = t4"
    by (simp_all add: updateFileMetadata_def Let_def)
  have "lastUpdated ?e1 = Some t1" by simp
  then show ?thesis using e1 f2 s d by blast
qed

text \<open>
  C7 as stated fails: the clock has millisecond resolution, and two applications that
  read the same instant return the same document, timestamps included, so the
  timestamps do not strictly advance.
\<close>

theorem updateFileMetadata_same_clock_counterexample:
  "updateFileMetadata
     (updateFileMetadata sampleDocument ''a.md'' markInProgress
        ''2025-01-02T00:00:00.000Z'' ''2025-01-02T00:00:00.000Z'')
     ''a.md'' markInProgress ''2025-01-02T00:00:00.000Z'' ''2025-01-02T00:00:00.000Z''
   = updateFileMetadata sampleDocument ''a.md'' markInProgress
        ''2025-01-02T00:00:00.000Z'' ''2025-01-02T00:00:00.000Z''
   \<and> \<not> docLastUpdated (updateFileMetadata sampleDocument ''a.md'' markInProgress
            ''2025-01-02T00:00:00.000Z'' ''2025-01-02T00:00:00.000Z'')
       < docLastUpdated (updateFileMetadata
           (updateFileMetadata sampleDocument ''a.md'' markInProgress
              ''2025-01-02T00:00:00.000Z'' ''2025-01-02T00:00:00.000Z'')
           ''a.md'' markInProgress ''2025-01-02T00:00:00.000Z'' ''2025-01-02T00:00:00.000Z'')"
  by (simp add: updateFileMetadata_def Let_def sampleDocument_def
      createInitialTranslationMetadata_def assignProperty_def markInProgress_def emptyUpdates_def
      spreadUpdates_def orElse_def initialEntry_def)

section \<open>Properties of the markdown translation\<close>

lemma splitStep_sections: "\<exists>extra. sections (splitStep st l) = sections st @ extra"
  by (simp add: splitStep_def pushCurrent_def Let_def)

lemma foldl_splitStep_sections: "\<exists>extra. sections (foldl splitStep st ls) = sections st @ extra"
proof (induction ls arbitrary: st)
  case Nil
  show ?case by simp
next
  case (Cons l ls)
  obtain e1 where "sections (splitStep st l) = sections st @ e1"
    using splitStep_sections by blast
  moreover obtain e2 where "sections (foldl splitStep (splitStep st l) ls) = sections (splitStep st l) @ e2"
    using Cons.IH by blast
  ultimately show ?case by simp
qed

lemma splitStep_inCodeBlock:
  "inCodeBlock (splitStep st l) = (if isFenceLine l then \<not> inCodeBlock st else inCodeBlock st)"
  by (simp add: splitStep_def pushCurrent_def Let_def)

lemma foldl_splitStep_inCodeBlock:
  "inCodeBlock (foldl splitStep st ls) = (inCodeBlock st \<noteq> odd (length (filter isFenceLine ls)))"
  by (induction ls arbitrary: st) (auto simp: splitStep_inCodeBlock)

lemma splitStep_open:
  "\<not> inCodeBlock st \<Longrightarrow> isFenceLine l \<Longrightarrow>
   splitStep st l = \<lparr> sections = sections st @ (if currentSection st \<noteq> [] then [currentSection st] else []),
                      currentSection = l @ [newline], inCodeBlock = True \<rparr>"
  by (simp add: splitStep_def pushCurrent_def Let_def)

lemma foldl_splitStep_body:
  "inCodeBlock st \<Longrightarrow> \<forall>l \<in> set body. \<not> isFenceLine l \<Longrightarrow>
   foldl splitStep st body = st\<lparr>currentSection := currentSection st @ unlines body\<rparr>"
proof (induction body arbitrary: st)
  case Nil
  show ?case by (simp add: unlines_def)
next
  case (Cons l ls)
  have "splitStep st l = st\<lparr>currentSection := currentSection st @ l @ [newline]\<rparr>"
    using Cons.prems by (simp add: splitStep_def)
  then show ?case using Cons.IH [of "st\<lparr>currentSection := currentSection st @ l @ [newline]\<rparr>"] Cons.prems
    by (simp add: unlines_def)
qed

lemma splitStep_close:
  "inCodeBlock st \<Longrightarrow> currentSection st \<noteq> [] \<Longrightarrow> isFenceLine l \<Longrightarrow>
   splitStep st l = \<lparr> sections = sections st @ [currentSection st, l @ [newline]],
                      currentSection = [], inCodeBlock = False \<rparr>"
  by (simp add: splitStep_def pushCurrent_def Let_def)

lemma sections_block:
  assumes "splitLines markdown = pre @ [opening] @ body @ [closing] @ post"
    and "isFenceLine opening" and "isFenceLine closing"
    and "\<forall>l \<in> set body. \<not> isFenceLine l"
    and "even (length (filter isFenceLine pre))"
  shows "\<exists>before after. splitMarkdownSections markdown
           = before @ [opening @ [newline] @ unlines body, closing @ [newline]] @ after"
proof -
  let ?s0 = "\<lparr>sections = [], currentSection = [], inCodeBlock = False\<rparr>"
  let ?s1 = "foldl splitStep ?s0 pre"
  let ?s2 = "splitStep ?s1 opening"
  let ?s3 = "foldl splitStep ?s2 body"
  let ?s4 = "splitStep ?s3 closing"
  let ?s5 = "foldl splitStep ?s4 post"
  have out1: "\<not> inCodeBlock ?s1" using assms(5) by (simp add: foldl_splitStep_inCodeBlock)
  have s2: "?s2 = \<lparr> sections = sections ?s1 @ (if currentSection ?s1 \<noteq> [] then [currentSection ?s1] else []),
                      currentSection = opening @ [newline], inCodeBlock = True \<rparr>"
    using out1 assms(2) by (rule splitStep_open)
  have s3: "?s3 = ?s2\<lparr>currentSection := currentSection ?s2 @ unlines body\<rparr>"
    by (rule foldl_splitStep_body) (use s2 assms(4) in simp_all)
  have s4: "?s4 = \<lparr> sections = sections ?s3 @ [currentSection ?s3, closing @ [newline]],
                      currentSection = [], inCodeBlock = False \<rparr>"
    by (rule splitStep_close) (use s2 s3 assms(3) in simp_all)
  have sec4: "sections ?s4 = sections ?s2 @ [opening @ [newline] @ unlines body, closing @ [newline]]"
    by (subst s4, subst (1 2) s3, subst (2) s2) simp
  obtain e5 where e5: "sections ?s5 = sections ?s4 @ e5"
    using foldl_splitStep_sections by blast
  have run: "foldl splitStep ?s0 (splitLines markdown) = ?s5"
    unfolding assms(1) by simp
  have "\<exists>e6. splitMarkdownSections markdown = sections ?s5 @ e6"
    unfolding splitMarkdownSections_def Let_def run by (simp add: pushCurrent_def)
  then obtain e6 where "splitMarkdownSections markdown = sections ?s5 @ e6" by blast
  then have "splitMarkdownSections markdown
      = sections ?s2 @ [opening @ [newline] @ unlines body, closing @ [newline]] @ (e5 @ e6)"
    unfolding e5 sec4 by simp
  then show ?thesis by blast
qed


lemma fence_not_space: "\<not> isSpace (CHR 0x60)"
  by (simp add: isSpace_def)

lemma trimEnd_keeps:
  assumes "a \<noteq> []" and "\<not> isSpace (last a)"
  shows "\<exists>w. rev (dropWhile isSpace (rev (a @ z))) = a @ w"
proof -
  have "last a \<in> set (rev a)" using assms(1) by simp
  then have "dropWhile isSpace (rev z @ rev a) = dropWhile isSpace (rev z) @ rev a
             \<or> dropWhile isSpace (rev z @ rev a) = rev a"
    using assms by (cases a rule: rev_cases) (auto simp: dropWhile_append)
  then show ?thesis by (metis append_Nil2 rev_append rev_rev_ident)
qed

lemma fenceLine_shape:
  assumes "isFenceLine l"
  shows "\<exists>ws x. l = ws @ fence @ x \<and> (\<forall>c \<in> set ws. isSpace c)"
proof -
  obtain y where y: "trim l = fence @ y" using assms by (auto simp: isFenceLine_def prefix_def)
  let ?d = "dropWhile isSpace l"
  have "rev (trim l) = dropWhile isSpace (rev ?d)" by (simp add: trim_def)
  then have "\<exists>t. rev ?d = t @ rev (trim l)"
    by (metis takeWhile_dropWhile_id)
  then obtain t where "rev ?d = t @ rev (trim l)" by blast
  then have "?d = trim l @ rev t" by (metis rev_append rev_rev_ident)
  then have d: "?d = fence @ (y @ rev t)" using y by simp
  have "l = takeWhile isSpace l @ ?d" by simp
  then have "l = takeWhile isSpace l @ fence @ (y @ rev t)" using d by simp
  moreover have "\<forall>c \<in> set (takeWhile isSpace l). isSpace c" by (auto dest: set_takeWhileD)
  ultimately show ?thesis by blast
qed

lemma skip_fenced:
  assumes "isFenceLine l"
  shows "shouldSkipTranslation (l @ z)"
proof -
  obtain ws x where l: "l = ws @ fence @ x" and ws: "\<forall>c \<in> set ws. isSpace c"
    using fenceLine_shape [OF assms] by blast
  have "dropWhile isSpace (l @ z) = dropWhile isSpace (fence @ x @ z)"
    unfolding l using ws by (simp add: dropWhile_append)
  also have "\<dots> = fence @ x @ z" by (simp add: fence_def fence_not_space)
  finally have d: "dropWhile isSpace (l @ z) = fence @ (x @ z)" by simp
  have "\<exists>w. rev (dropWhile isSpace (rev (fence @ (x @ z)))) = fence @ w"
    by (rule trimEnd_keeps) (simp_all add: fence_def fence_not_space)
  then have "prefix fence (trim (l @ z))" unfolding trim_def d by (auto simp: prefix_def)
  then show ?thesis by (simp add: shouldSkipTranslation_def)
qed

lemma promiseAll_append_eq:
  "promiseAll (xs @ ys) =
     (case promiseAll xs of
        Inl e \<Rightarrow> Inl e
      | Inr v1 \<Rightarrow> (case promiseAll ys of Inl e \<Rightarrow> Inl e | Inr v2 \<Rightarrow> Inr (v1 @ v2)))"
proof (induction xs)
  case Nil
  show ?case by (simp split: sum.splits)
next
  case (Cons x xs)
  then show ?case by (cases x) (simp_all split: sum.splits)
qed

lemma promiseAll_append:
  "promiseAll (xs @ ys) = Inr vs \<longleftrightarrow>
     (\<exists>v1 v2. promiseAll xs = Inr v1 \<and> promiseAll ys = Inr v2 \<and> vs = v1 @ v2)"
  unfolding promiseAll_append_eq by (auto split: sum.splits)

lemma promiseAll_total:
  "(\<forall>x \<in> set xs. \<exists>v. x = Inr v) \<Longrightarrow> \<exists>vs. promiseAll xs = Inr vs"
proof (induction xs)
  case Nil
  show ?case by simp
next
  case (Cons x xs)
  then obtain v vs where "x = Inr v" "promiseAll xs = Inr vs" by auto
  then show ?case by simp
qed

text \<open>
  C8 (amended). A fenced code block as \<open>splitMarkdownSections\<close> recognises it is an
  opening line that starts with three backticks after trimming, met outside a code block
  (an even number of such lines precedes it), body lines none of which starts with three
  backticks, and a closing line that does. For every markdown input containing such a
  block and every target language, whenever \<open>translateMarkdown\<close> returns an output, the
  output contains the fence lines and the body of the block byte for byte, each line with
  its line terminator, whatever the segment translation returns for other segments; and
  it does return an output when the segment translation does not fail.
\<close>

theorem translateMarkdown_preserves_fenced_block:
  assumes "splitLines markdown = pre @ [opening] @ body @ [closing] @ post"
    and "isFenceLine opening" and "isFenceLine closing"
    and "\<forall>l \<in> set body. \<not> isFenceLine l"
    and "even (length (filter isFenceLine pre))"
  shows "(\<forall>out. translateMarkdown translateText markdown targetLanguage = Inr out \<longrightarrow>
            (\<exists>a b. out = a @ unlines ([opening] @ body @ [closing]) @ b))
       \<and> ((\<forall>s. \<exists>t. translateText s targetLanguage = Inr t) \<longrightarrow>
            (\<exists>out. translateMarkdown translateText markdown targetLanguage = Inr out))"
proof
  let ?f = "translateSection translateText targetLanguage"
  let ?b1 = "opening @ [newline] @ unlines body"
  let ?b2 = "closing @ [newline]"
  obtain before after where
    secs: "splitMarkdownSections markdown = before @ [?b1, ?b2] @ after"
    using sections_block [OF assms] by blast
  have k1: "?f ?b1 = Inr ?b1"
    using skip_fenced [OF assms(2), of "[newline] @ unlines body"]
    by (simp add: translateSection_def)
  have k2: "?f ?b2 = Inr ?b2"
    using skip_fenced [OF assms(3), of "[newline]"] by (simp add: translateSection_def)
  have block: "?b1 @ ?b2 = unlines ([opening] @ body @ [closing])"
    by (simp add: unlines_def)
  show "\<forall>out. translateMarkdown translateText markdown targetLanguage = Inr out \<longrightarrow>
            (\<exists>a b. out = a @ unlines ([opening] @ body @ [closing]) @ b)"
  proof (intro allI impI)
    fix out
    assume "translateMarkdown translateText markdown targetLanguage = Inr out"
    then obtain vs where vs: "promiseAll (map ?f (before @ [?b1, ?b2] @ after)) = Inr vs"
      and out: "out = concat vs"
      unfolding translateMarkdown_def secs by (auto split: sum.splits)
    from vs obtain v1 v2 where
      "promiseAll (map ?f before) = Inr v1"
      "promiseAll (map ?f ([?b1, ?b2] @ after)) = Inr v2" "vs = v1 @ v2"
      unfolding map_append promiseAll_append by blast
    moreover from this(2) obtain v3 where "v2 = ?b1 # ?b2 # v3"
      using k1 k2 by (auto split: sum.splits)
    ultimately have "out = concat v1 @ (?b1 @ ?b2) @ concat v3" using out by simp
    then show "\<exists>a b. out = a @ unlines ([opening] @ body @ [closing]) @ b"
      unfolding block by blast
  qed
next
  show "(\<forall>s. \<exists>t. translateText s targetLanguage = Inr t) \<longrightarrow>
            (\<exists>out. translateMarkdown translateText markdown targetLanguage = Inr out)"
  proof
    assume ok: "\<forall>s. \<exists>t. translateText s targetLanguage = Inr t"
    have "\<forall>x \<in> set (map (translateSection translateText targetLanguage)
                        (splitMarkdownSections markdown)). \<exists>v. x = Inr v"
      using ok by (auto simp: translateSection_def)
    then obtain vs where "promiseAll (map (translateSection translateText targetLanguage)
                        (splitMarkdownSections markdown)) = Inr vs"
      using promiseAll_total by blast
    then show "\<exists>out. translateMarkdown translateText markdown targetLanguage = Inr out"
      by (simp add: translateMarkdown_def)
  qed
qed


theorem translateMarkdown_preserves_fenced_block_witness:
  "splitLines ''Hello world\<newline>\<newline>```js\<newline>let abc = 1\<newline>```\<newline>Bye now''
     = [''Hello world'', []] @ [''```js''] @ [''let abc = 1''] @ [''```''] @ [''Bye now'']
   \<and> isFenceLine ''```js'' \<and> isFenceLine ''```''
   \<and> \<not> isFenceLine ''let abc = 1''
   \<and> even (length (filter isFenceLine [''Hello world'', []]))
   \<and> (\<exists>out a b. translateMarkdown (\<lambda>s l. Inr ''Hola'')
          ''Hello world\<newline>\<newline>```js\<newline>let abc = 1\<newline>```\<newline>Bye now'' ''es-ES'' = Inr out
        \<and> out = a @ unlines ([''```js''] @ [''let abc = 1''] @ [''```'']) @ b)"
proof -
  have h1: "splitLines ''Hello world\<newline>\<newline>```js\<newline>let abc = 1\<newline>```\<newline>Bye now''
     = [''Hello world'', []] @ [''```js''] @ [''let abc = 1''] @ [''```''] @ [''Bye now'']"
    by code_simp
  have h2: "isFenceLine ''```js''" by code_simp
  have h3: "isFenceLine ''```''" by code_simp
  have h4': "\<not> isFenceLine ''let abc = 1''" by code_simp
  then have h4: "\<forall>l \<in> set [''let abc = 1'']. \<not> isFenceLine l" by simp
  have h5: "even (length (filter isFenceLine [''Hello world'', []]))" by code_simp
  have tot: "\<forall>s. \<exists>t. (\<lambda>s l. Inr ''Hola'' :: string + string) s ''es-ES'' = Inr t" by simp
  show ?thesis
    using h1 h2 h3 h4' h5 tot
      translateMarkdown_preserves_fenced_block [OF h1 h2 h3 h4 h5,
        of "\<lambda>s l. Inr ''Hola''" "''es-ES''"]
    by blast
qed

text \<open>
  C8 as stated fails: Markdown also fences code with four or more backticks (or with
  tildes), and a block fenced by four backticks may hold lines of three backticks. Every
  such line toggles the code-block state, so the body line between them is sent to the
  segment translation and does not reappear in the output.
\<close>

theorem translateMarkdown_long_fence_counterexample:
  "translateMarkdown (\<lambda>s l. Inr ''XXX'')
       ''````\<newline>```\<newline>code\<newline>```\<newline>````'' ''es-ES''
     = Inr ''````\<newline>```\<newline>XXX```\<newline>````\<newline>''
   \<and> \<not> sublist ''code'' ''````\<newline>```\<newline>XXX```\<newline>````\<newline>''"
  by code_simp

section \<open>Properties of updateFileMetadata on the object store\<close>

lemma readObj_append: "a < length h \<Longrightarrow> readObj (h @ ext) a = readObj h a"
  by (simp add: readObj_def nth_append)

lemma readObj_Some_less: "readObj h a = Some obj \<Longrightarrow> a < length h"
  by (simp add: readObj_def split: if_splits)

lemma readFile_append: "readFile h a = Some f \<Longrightarrow> readFile (h @ ext) a = Some f"
proof -
  assume r: "readFile h a = Some f"
  then have "a < length h" by (auto simp: readFile_def readObj_def split: if_splits option.splits)
  then show ?thesis using r by (simp add: readFile_def readObj_append)
qed

lemma readEntries_append:
  "readEntries h refs = Some es \<Longrightarrow> readEntries (h @ ext) refs = Some es"
proof (induction refs arbitrary: es)
  case Nil
  then show ?case by simp
next
  case (Cons p rest)
  then obtain f es' where f: "readFile h (snd p) = Some f" and es': "readEntries h rest = Some es'"
    and es: "es = (fst p, f) # es'"
    by (auto split: option.splits)
  then show ?case using Cons.IH [OF es'] readFile_append [OF f] by simp
qed

lemma readEntries_update:
  "readEntries h refs = Some es \<Longrightarrow> readFile h a = Some f \<Longrightarrow>
   readEntries h (AList.update k a refs) = Some (AList.update k f es)"
proof (induction refs arbitrary: es)
  case Nil
  then show ?case by simp
next
  case (Cons p rest)
  then obtain g es' where g: "readFile h (snd p) = Some g" and es': "readEntries h rest = Some es'"
    and es: "es = (fst p, g) # es'"
    by (auto split: option.splits)
  show ?case
  proof (cases "fst p = k")
    case True
    then show ?thesis using g es' es Cons.prems(2) by (cases p) simp
  next
    case False
    then show ?thesis using g es' es Cons.IH [OF es' Cons.prems(2)] by (cases p) simp
  qed
qed

lemma readEntries_map_of:
  "readEntries h refs = Some es \<Longrightarrow>
   map_of es k = (case map_of refs k of None \<Rightarrow> None | Some a \<Rightarrow> readFile h a)"
proof (induction refs arbitrary: es)
  case Nil
  then show ?case by simp
next
  case (Cons p rest)
  then obtain g es' where g: "readFile h (snd p) = Some g" and es': "readEntries h rest = Some es'"
    and es: "es = (fst p, g) # es'"
    by (auto split: option.splits)
  show ?case using g es Cons.IH [OF es'] by (cases p) simp
qed


lemma readEntries_readable:
  "readEntries h refs = Some es \<Longrightarrow> map_of refs k = Some a \<Longrightarrow> \<exists>f. readFile h a = Some f"
proof (induction refs arbitrary: es)
  case Nil
  then show ?case by simp
next
  case (Cons p rest)
  then obtain g es' where g: "readFile h (snd p) = Some g" and es': "readEntries h rest = Some es'"
    by (auto split: option.splits)
  show ?case
  proof (cases "fst p = k")
    case True
    then show ?thesis using g Cons.prems(2) by (cases p) simp
  next
    case False
    then show ?thesis using Cons.IH [OF es'] Cons.prems(2) by (cases p) simp
  qed
qed

lemma updateFileMetadata_buildDoc:
  "updateFileMetadata (buildDoc d es s x) filename u t1 t2
     = buildDoc (d\<lparr>d_files := fa, d_stats := sa, d_lastUpdated := t2\<rparr>)
         (AList.update filename
            ((spreadUpdates (case map_of es filename of None \<Rightarrow> defaultEntry | Some e \<Rightarrow> e) u)
               \<lparr>lastUpdated := Some t1\<rparr>) es)
         (calculateStats (AList.update filename
            ((spreadUpdates (case map_of es filename of None \<Rightarrow> defaultEntry | Some e \<Rightarrow> e) u)
               \<lparr>lastUpdated := Some t1\<rparr>) es))
         x"
  by (cases "map_of es filename") (simp_all add: updateFileMetadata_def Let_def buildDoc_def update_conv')

lemma updateFileMetadataH_result:
  assumes doc: "readObj h a = Some (ODoc d)"
    and fobj: "readObj h (d_files d) = Some (OFiles refs)"
    and ents: "readEntries h refs = Some es"
  shows "\<exists>ext. updateFileMetadataH h a filename u t1 t2 = Some (h @ ext, length h + length ext - 1)
           \<and> readObj (h @ ext) (length h + length ext - 1)
               = Some (ODoc (d\<lparr>d_files := length h, d_stats := length h + length ext - 2,
                                d_lastUpdated := t2\<rparr>))
           \<and> readFiles (h @ ext) (length h)
               = Some (AList.update filename
                   ((spreadUpdates (case map_of es filename of None \<Rightarrow> defaultEntry | Some e \<Rightarrow> e) u)
                      \<lparr>lastUpdated := Some t1\<rparr>) es)
           \<and> readStats (h @ ext) (length h + length ext - 2)
               = Some (calculateStats (AList.update filename
                   ((spreadUpdates (case map_of es filename of None \<Rightarrow> defaultEntry | Some e \<Rightarrow> e) u)
                      \<lparr>lastUpdated := Some t1\<rparr>) es))"
proof (cases "map_of refs filename")
  case None
  let ?e = defaultEntry
  let ?new = "(spreadUpdates ?e u)\<lparr>lastUpdated := Some t1\<rparr>"
  let ?n = "length h"
  let ?refs3 = "AList.update filename (?n + 2) refs"
  let ?h3 = "h @ [OFiles ?refs3, OFile ?e, OFile ?new]"
  let ?es' = "AList.update filename ?new es"
  have mes: "map_of es filename = None"
    using readEntries_map_of [OF ents, of filename] None by simp
  have syn: "synthesizeDefault (h @ [OFiles refs]) ?n refs filename
      = (h @ [OFiles (AList.update filename (?n + 1) refs), OFile ?e],
         AList.update filename (?n + 1) refs)"
    using None by (simp add: synthesizeDefault_def alloc_def writeObj_def)
  have rep: "replaceEntry (h @ [OFiles (AList.update filename (?n + 1) refs), OFile ?e]) ?n
        (AList.update filename (?n + 1) refs) filename u t1 = Some (?h3, ?refs3)"
    by (simp add: replaceEntry_def update_conv' readFile_def readObj_def nth_append alloc_def
        writeObj_def)
  have "readEntries ?h3 refs = Some es" using ents by (rule readEntries_append)
  moreover have "readFile ?h3 (?n + 2) = Some ?new"
    by (simp add: readFile_def readObj_def nth_append)
  ultimately have e3: "readEntries ?h3 ?refs3 = Some ?es'" by (rule readEntries_update)
  let ?ext = "[OFiles ?refs3, OFile ?e, OFile ?new, OStats (calculateStats ?es'),
               ODoc (d\<lparr>d_files := ?n, d_stats := ?n + 3, d_lastUpdated := t2\<rparr>)]"
  have ret: "returnDocument ?h3 d ?n ?refs3 t2 = Some (h @ ?ext, ?n + 4)"
    using e3 by (simp add: returnDocument_def alloc_def)
  have run: "updateFileMetadataH h a filename u t1 t2 = Some (h @ ?ext, ?n + length ?ext - 1)"
    using doc fobj syn rep ret by (simp add: updateFileMetadataH_def alloc_def)
  have "readEntries (h @ ?ext) ?refs3 = Some ?es'"
    using readEntries_append [OF e3, of "[OStats (calculateStats ?es'),
               ODoc (d\<lparr>d_files := ?n, d_stats := ?n + 3, d_lastUpdated := t2\<rparr>)]"] by simp
  then have rf: "readFiles (h @ ?ext) ?n = Some ?es'"
    by (simp add: readFiles_def readObj_def)
  have rd: "readObj (h @ ?ext) (?n + length ?ext - 1)
      = Some (ODoc (d\<lparr>d_files := ?n, d_stats := ?n + length ?ext - 2, d_lastUpdated := t2\<rparr>))"
    by (simp add: readObj_def nth_append)
  have rs: "readStats (h @ ?ext) (?n + length ?ext - 2) = Some (calculateStats ?es')"
    by (simp add: readStats_def readObj_def nth_append)
  show ?thesis using run rd rf rs mes by (intro exI [of _ ?ext]) simp
next
  case (Some old)
  obtain e where re: "readFile h old = Some e"
    using readEntries_readable [OF ents Some] by blast
  have e: "map_of es filename = Some e"
    using readEntries_map_of [OF ents, of filename] Some re by simp
  let ?new = "(spreadUpdates e u)\<lparr>lastUpdated := Some t1\<rparr>"
  let ?n = "length h"
  let ?refs3 = "AList.update filename (?n + 1) refs"
  let ?h3 = "h @ [OFiles ?refs3, OFile ?new]"
  let ?es' = "AList.update filename ?new es"
  have syn: "synthesizeDefault (h @ [OFiles refs]) ?n refs filename = (h @ [OFiles refs], refs)"
    using Some by (simp add: synthesizeDefault_def)
  have "readFile (h @ [OFiles refs]) old = Some e" using re by (rule readFile_append)
  then have rep: "replaceEntry (h @ [OFiles refs]) ?n refs filename u t1 = Some (?h3, ?refs3)"
    using Some by (simp add: replaceEntry_def alloc_def writeObj_def)
  have "readEntries ?h3 refs = Some es" using ents by (rule readEntries_append)
  moreover have "readFile ?h3 (?n + 1) = Some ?new"
    by (simp add: readFile_def readObj_def nth_append)
  ultimately have e3: "readEntries ?h3 ?refs3 = Some ?es'" by (rule readEntries_update)
  let ?ext = "[OFiles ?refs3, OFile ?new, OStats (calculateStats ?es'),
               ODoc (d\<lparr>d_files := ?n, d_stats := ?n + 2, d_lastUpdated := t2\<rparr>)]"
  have ret: "returnDocument ?h3 d ?n ?refs3 t2 = Some (h @ ?ext, ?n + 3)"
    using e3 by (simp add: returnDocument_def alloc_def)
  have run: "updateFileMetadataH h a filename u t1 t2 = Some (h @ ?ext, ?n + length ?ext - 1)"
    using doc fobj syn rep ret by (simp add: updateFileMetadataH_def alloc_def)
  have "readEntries (h @ ?ext) ?refs3 = Some ?es'"
    using readEntries_append [OF e3, of "[OStats (calculateStats ?es'),
               ODoc (d\<lparr>d_files := ?n, d_stats := ?n + 2, d_lastUpdated := t2\<rparr>)]"] by simp
  then have rf: "readFiles (h @ ?ext) ?n = Some ?es'"
    by (simp add: readFiles_def readObj_def)
  have rd: "readObj (h @ ?ext) (?n + length ?ext - 1)
      = Some (ODoc (d\<lparr>d_files := ?n, d_stats := ?n + length ?ext - 2, d_lastUpdated := t2\<rparr>))"
    by (simp add: readObj_def nth_append)
  have rs: "readStats (h @ ?ext) (?n + length ?ext - 2) = Some (calculateStats ?es')"
    by (simp add: readStats_def readObj_def nth_append)
  show ?thesis using run rd rf rs e by (intro exI [of _ ?ext]) simp
qed


lemma readDoc_parts:
  assumes "readDoc h a = Some m"
  obtains d refs es s x where
    "readObj h a = Some (ODoc d)" "readObj h (d_files d) = Some (OFiles refs)"
    "readEntries h refs = Some es" "readStats h (d_stats d) = Some s"
    "readMeta h (d_meta d) = Some x" "m = buildDoc d es s x"
proof -
  from assms obtain d where d: "readObj h a = Some (ODoc d)"
    by (auto simp: readDoc_def split: option.splits Obj.splits)
  from assms d obtain es s x where
    fs: "readFiles h (d_files d) = Some es" and s: "readStats h (d_stats d) = Some s"
    and x: "readMeta h (d_meta d) = Some x" and m: "m = buildDoc d es s x"
    by (auto simp: readDoc_def split: option.splits)
  from fs obtain refs where
    "readObj h (d_files d) = Some (OFiles refs)" "readEntries h refs = Some es"
    by (auto simp: readFiles_def split: option.splits Obj.splits)
  then show ?thesis using d s x m that by blast
qed

lemma readDoc_append:
  assumes "readDoc h a = Some m"
  shows "readDoc (h @ ext) a = Some m"
proof -
  obtain d refs es s x where p:
    "readObj h a = Some (ODoc d)" "readObj h (d_files d) = Some (OFiles refs)"
    "readEntries h refs = Some es" "readStats h (d_stats d) = Some s"
    "readMeta h (d_meta d) = Some x" "m = buildDoc d es s x"
    using assms by (rule readDoc_parts)
  have 1: "readObj (h @ ext) a = Some (ODoc d)"
    using p(1) readObj_Some_less [OF p(1)] by (simp add: readObj_append)
  have 2: "readObj (h @ ext) (d_files d) = Some (OFiles refs)"
    using p(2) readObj_Some_less [OF p(2)] by (simp add: readObj_append)
  have 3: "readEntries (h @ ext) refs = Some es" using p(3) by (rule readEntries_append)
  have "d_stats d < length h" using p(4) by (auto simp: readStats_def readObj_def split: if_splits)
  then have 4: "readStats (h @ ext) (d_stats d) = Some s"
    using p(4) by (simp add: readStats_def readObj_append)
  have "d_meta d < length h" using p(5) by (auto simp: readMeta_def readObj_def split: if_splits)
  then have 5: "readMeta (h @ ext) (d_meta d) = Some x"
    using p(5) by (simp add: readMeta_def readObj_append)
  show ?thesis using 1 2 3 4 5 p(6) by (simp add: readDoc_def readFiles_def)
qed

text \<open>
  C9. For every document, file name and partial update, \<open>updateFileMetadata\<close> does not
  mutate its input: on the object store, every object that existed before the call is
  unchanged after it, so the input document still reads as the same value. The returned
  document is the one the functional \<open>updateFileMetadata\<close> computes; its \<open>version\<close>,
  \<open>language\<close>, \<open>languageName\<close>, \<open>direction\<close>, \<open>project\<close>, \<open>coordinator\<close>,
  \<open>initialized\<close> and \<open>meta\<close> are the input's, and every file entry other than the named
  one is unchanged.
\<close>

theorem updateFileMetadata_frame:
  assumes "readDoc h a = Some m"
  shows "\<exists>h' r. updateFileMetadataH h a filename u t1 t2 = Some (h', r)
           \<and> take (length h) h' = h
           \<and> readDoc h' a = Some m
           \<and> readDoc h' r = Some (updateFileMetadata m filename u t1 t2)
           \<and> version (updateFileMetadata m filename u t1 t2) = version m
           \<and> language (updateFileMetadata m filename u t1 t2) = language m
           \<and> languageName (updateFileMetadata m filename u t1 t2) = languageName m
           \<and> direction (updateFileMetadata m filename u t1 t2) = direction m
           \<and> project (updateFileMetadata m filename u t1 t2) = project m
           \<and> coordinator (updateFileMetadata m filename u t1 t2) = coordinator m
           \<and> initialized (updateFileMetadata m filename u t1 t2) = initialized m
           \<and> meta (updateFileMetadata m filename u t1 t2) = meta m
           \<and> (\<forall>k. k \<noteq> filename \<longrightarrow>
                 map_of (files (updateFileMetadata m filename u t1 t2)) k = map_of (files m) k)"
proof -
  obtain d refs es s x where p:
    "readObj h a = Some (ODoc d)" "readObj h (d_files d) = Some (OFiles refs)"
    "readEntries h refs = Some es" "readStats h (d_stats d) = Some s"
    "readMeta h (d_meta d) = Some x" "m = buildDoc d es s x"
    using assms by (rule readDoc_parts)
  let ?new = "(spreadUpdates (case map_of es filename of None \<Rightarrow> defaultEntry | Some e \<Rightarrow> e) u)
                \<lparr>lastUpdated := Some t1\<rparr>"
  obtain ext where
    run: "updateFileMetadataH h a filename u t1 t2 = Some (h @ ext, length h + length ext - 1)"
    and rd: "readObj (h @ ext) (length h + length ext - 1)
               = Some (ODoc (d\<lparr>d_files := length h, d_stats := length h + length ext - 2,
                                d_lastUpdated := t2\<rparr>))"
    and rf: "readFiles (h @ ext) (length h) = Some (AList.update filename ?new es)"
    and rs: "readStats (h @ ext) (length h + length ext - 2)
               = Some (calculateStats (AList.update filename ?new es))"
    using updateFileMetadataH_result [OF p(1,2,3), of filename u t1 t2] by blast
  have "d_meta d < length h" using p(5) by (auto simp: readMeta_def readObj_def split: if_splits)
  then have rm: "readMeta (h @ ext) (d_meta d) = Some x"
    using p(5) by (simp add: readMeta_def readObj_append)
  have out: "readDoc (h @ ext) (length h + length ext - 1)
      = Some (updateFileMetadata m filename u t1 t2)"
    unfolding p(6) updateFileMetadata_buildDoc [where fa="length h"
        and sa="length h + length ext - 2"]
    using rd rf rs rm by (simp add: readDoc_def)
  have keep: "readDoc (h @ ext) a = Some m" using assms by (rule readDoc_append)
  have frame: "version (updateFileMetadata m filename u t1 t2) = version m
           \<and> language (updateFileMetadata m filename u t1 t2) = language m
           \<and> languageName (updateFileMetadata m filename u t1 t2) = languageName m
           \<and> direction (updateFileMetadata m filename u t1 t2) = direction m
           \<and> project (updateFileMetadata m filename u t1 t2) = project m
           \<and> coordinator (updateFileMetadata m filename u t1 t2) = coordinator m
           \<and> initialized (updateFileMetadata m filename u t1 t2) = initialized m
           \<and> meta (updateFileMetadata m filename u t1 t2) = meta m"
    by (simp add: updateFileMetadata_def Let_def)
  have others: "\<forall>k. k \<noteq> filename \<longrightarrow>
                 map_of (files (updateFileMetadata m filename u t1 t2)) k = map_of (files m) k"
    by (simp add: updateFileMetadata_other)
  have "take (length h) (h @ ext) = h" by simp
  then show ?thesis using run keep out frame others by blast
qed


theorem updateFileMetadata_frame_witness:
  "\<exists>m h' r. readDoc sampleStore 4 = Some m
     \<and> updateFileMetadataH sampleStore 4 ''a.md'' (emptyUpdates\<lparr>upd_status := Some InProgress\<rparr>)
           ''2025-01-02T00:00:00.000Z'' ''2025-01-02T00:00:00.001Z'' = Some (h', r)
     \<and> take (length sampleStore) h' = sampleStore
     \<and> readDoc h' 4 = Some m
     \<and> readDoc h' r = Some (updateFileMetadata m ''a.md'' (emptyUpdates\<lparr>upd_status := Some InProgress\<rparr>)
           ''2025-01-02T00:00:00.000Z'' ''2025-01-02T00:00:00.001Z'')
     \<and> language (updateFileMetadata m ''a.md'' (emptyUpdates\<lparr>upd_status := Some InProgress\<rparr>)
           ''2025-01-02T00:00:00.000Z'' ''2025-01-02T00:00:00.001Z'') = ''es-ES''"
proof -
  obtain m where m: "readDoc sampleStore 4 = Some m" and l: "language m = ''es-ES''"
    by (simp add: sampleStore_def readDoc_def readObj_def readFiles_def readFile_def
        readStats_def readMeta_def buildDoc_def)
  show ?thesis
    using m l updateFileMetadata_frame [OF m, of "''a.md''"
        "emptyUpdates\<lparr>upd_status := Some InProgress\<rparr>"
        "''2025-01-02T00:00:00.000Z''" "''2025-01-02T00:00:00.001Z''"]
    by (metis (no_types, lifting))
qed

section \<open>Properties of the percentage\<close>

lemma bitlen_powi_bounds:
  assumes "0 < a"
  shows "(2::rat) powi (bitlen a - 1) \<le> of_int a" and "of_int a < (2::rat) powi (bitlen a)"
proof -
  have b: "2 ^ nat (bitlen a - 1) \<le> a" "a < 2 ^ nat (bitlen a)"
    using bitlen_bounds [OF assms] by simp_all
  have pos: "1 \<le> bitlen a" using assms by (simp add: bitlen_alt_def)
  have "(2::rat) powi (bitlen a - 1) = 2 ^ nat (bitlen a - 1)"
    using pos by (simp add: power_int_def)
  also have "\<dots> = of_int (2 ^ nat (bitlen a - 1))" by simp
  also have "\<dots> \<le> of_int a" using b(1) by (simp only: of_int_le_iff)
  finally show "(2::rat) powi (bitlen a - 1) \<le> of_int a" .
  have "(of_int a :: rat) < of_int (2 ^ nat (bitlen a))" using b(2) by (simp only: of_int_less_iff)
  also have "\<dots> = 2 ^ nat (bitlen a)" by simp
  also have "\<dots> = 2 powi (bitlen a)" using pos by (simp add: power_int_def)
  finally show "of_int a < (2::rat) powi (bitlen a)" .
qed

lemma ilog2_bounds:
  assumes "0 < x"
  shows "2 powi (ilog2 x) \<le> x" and "x < 2 powi (ilog2 x + 1)"
proof -
  obtain a b where q: "quotient_of x = (a, b)" by (cases "quotient_of x")
  have bpos: "0 < b" using q by (rule quotient_of_denom_pos)
  have x: "x = of_int a / of_int b" using q by (rule quotient_of_div)
  have apos: "0 < a"
    using assms bpos unfolding x by (simp add: zero_less_divide_iff)
  let ?A = "of_int a :: rat" and ?B = "of_int b :: rat"
  let ?d = "bitlen a - bitlen b"
  have A: "2 powi (bitlen a - 1) \<le> ?A" "?A < 2 powi (bitlen a)"
    using bitlen_powi_bounds [OF apos] by simp_all
  have B: "2 powi (bitlen b - 1) \<le> ?B" "?B < 2 powi (bitlen b)"
    using bitlen_powi_bounds [OF bpos] by simp_all
  have Bpos: "0 < ?B" using bpos by simp
  have "?A < 2 powi (bitlen a)" by (rule A(2))
  also have "\<dots> = 2 powi (?d + 1) * 2 powi (bitlen b - 1)"
    by (simp add: power_int_add [symmetric])
  also have "\<dots> \<le> 2 powi (?d + 1) * ?B"
    using B(1) by (simp add: mult_left_mono)
  finally have up: "x < 2 powi (?d + 1)"
    unfolding x using Bpos by (simp add: pos_divide_less_eq)
  have "2 powi (?d - 1) * ?B < 2 powi (?d - 1) * 2 powi (bitlen b)"
    using B(2) by (simp add: mult_strict_left_mono)
  also have "\<dots> = 2 powi (bitlen a - 1)"
    by (simp add: power_int_add [symmetric])
  also have "\<dots> \<le> ?A" by (rule A(1))
  finally have low: "2 powi (?d - 1) < x"
    unfolding x using Bpos by (simp add: pos_less_divide_eq)
  have il: "ilog2 x = (if 2 powi ?d \<le> x then ?d else ?d - 1)"
    by (simp add: ilog2_def q Let_def)
  show "2 powi (ilog2 x) \<le> x" using low by (simp add: il)
  show "x < 2 powi (ilog2 x + 1)" using up by (auto simp: il not_le)
qed

lemma roundHalfEven_error: "\<bar>of_int (roundHalfEven x) - x\<bar> \<le> 1 / 2"
proof -
  have "of_int \<lfloor>x\<rfloor> \<le> x" "x < of_int \<lfloor>x\<rfloor> + 1" by linarith+
  then show ?thesis by (auto simp: roundHalfEven_def Let_def)
qed

lemma toDouble_error:
  assumes "0 < x"
  shows "\<bar>toDouble x - x\<bar> \<le> x / 2 ^ 53"
proof -
  let ?u = "(2::rat) powi (ilog2 x - 52)"
  have upos: "0 < ?u" by simp
  have td: "toDouble x = of_int (roundHalfEven (x / ?u)) * ?u"
    using assms by (simp add: toDouble_def Let_def)
  have "toDouble x - x = (of_int (roundHalfEven (x / ?u)) - x / ?u) * ?u"
    unfolding td using upos by (simp add: algebra_simps)
  then have "\<bar>toDouble x - x\<bar> = \<bar>of_int (roundHalfEven (x / ?u)) - x / ?u\<bar> * ?u"
    using upos by (simp add: abs_mult)
  also have "\<dots> \<le> (1 / 2) * ?u"
    using roundHalfEven_error [of "x / ?u"] upos by (intro mult_right_mono) simp_all
  also have "\<dots> = 2 powi (ilog2 x) / 2 ^ 53"
  proof -
    have "(2::rat) powi (ilog2 x - 52) = 2 powi (ilog2 x) / 2 powi 52"
      by (simp add: power_int_diff)
    then show ?thesis by simp
  qed
  also have "\<dots> \<le> x / 2 ^ 53"
    using ilog2_bounds(1) [OF assms] by (simp add: divide_right_mono)
  finally show ?thesis .
qed


lemma percent_error:
  assumes "c \<le> t" and "0 < t"
  shows "\<bar>double_mul (double_div (of_nat c) (of_nat t)) 100 - of_nat c / of_nat t * 100\<bar>
           \<le> 300 / 2 ^ 53"
proof (cases "c = 0")
  case True
  then show ?thesis by (simp add: double_mul_def double_div_def toDouble_def)
next
  case False
  let ?x = "of_nat c / of_nat t :: rat"
  let ?q = "toDouble ?x"
  let ?p = "toDouble (?q * 100)"
  let ?eps = "1 / 2 ^ 53 :: rat"
  have xpos: "0 < ?x" using False assms(2) by simp
  have xle: "?x \<le> 1" using assms by simp
  have q: "\<bar>?q - ?x\<bar> \<le> ?x * ?eps" using toDouble_error [OF xpos] by simp
  have "?x * ?eps \<le> ?eps" using xle by (simp add: mult_left_le_one_le)
  then have q1: "\<bar>?q - ?x\<bar> \<le> ?eps" using q by linarith
  have "?x * ?eps < ?x" using xpos by simp
  then have qpos: "0 < ?q" using q by linarith
  have eps1: "?eps \<le> 1" by simp
  have qle: "?q \<le> 2" using q1 xle eps1 by linarith
  have ypos: "0 < ?q * 100" using qpos by simp
  have p: "\<bar>?p - ?q * 100\<bar> \<le> ?q * 100 * ?eps" using toDouble_error [OF ypos] by simp
  have "?q * 100 * ?eps \<le> 2 * 100 * ?eps" using qle by simp
  then have p1: "\<bar>?p - ?q * 100\<bar> \<le> 200 * ?eps" using p by linarith
  have "?q * 100 - ?x * 100 = (?q - ?x) * 100" by (simp only: left_diff_distrib)
  then have "\<bar>?q * 100 - ?x * 100\<bar> = \<bar>?q - ?x\<bar> * 100" by (simp only: abs_mult abs_numeral)
  then have q2: "\<bar>?q * 100 - ?x * 100\<bar> \<le> 100 * ?eps" using q1 by linarith
  have "?p - ?x * 100 = (?p - ?q * 100) + (?q * 100 - ?x * 100)" by simp
  then have "\<bar>?p - ?x * 100\<bar> \<le> \<bar>?p - ?q * 100\<bar> + \<bar>?q * 100 - ?x * 100\<bar>"
    by (simp only: abs_triangle_ineq)
  also have "\<dots> \<le> 200 * ?eps + 100 * ?eps" using p1 q2 by (rule add_mono)
  also have "\<dots> = 300 * ?eps" by simp
  finally have "\<bar>?p - ?x * 100\<bar> \<le> 300 * ?eps" .
  then show ?thesis by (simp add: double_mul_def double_div_def)
qed

lemma round_near:
  fixes y :: rat
  assumes "0 < d" and "n mod d \<noteq> 0" and "\<bar>y - of_int n / of_int d\<bar> < 1 / of_int d"
  shows "\<lfloor>y\<rfloor> = \<lfloor>of_int n / of_int d :: rat\<rfloor>"
proof -
  let ?r = "n div d"
  have m: "1 \<le> n mod d" "n mod d \<le> d - 1"
    using assms(1,2) pos_mod_sign [of d n] pos_mod_bound [of d n] by linarith+
  have n: "n = ?r * d + n mod d" by simp
  have dpos: "0 < (of_int d :: rat)" using assms(1) by simp
  have "of_int n / of_int d = (of_int ?r :: rat) + of_int (n mod d) / of_int d"
  proof -
    have "(of_int n :: rat) = of_int ?r * of_int d + of_int (n mod d)"
      by (metis n of_int_add of_int_mult)
    then show ?thesis using dpos by (simp add: field_simps)
  qed
  moreover have "1 / of_int d \<le> (of_int (n mod d) :: rat) / of_int d"
    using m(1) dpos by (simp add: divide_right_mono)
  moreover have "(of_int (n mod d) :: rat) / of_int d \<le> 1 - 1 / of_int d"
  proof -
    have "(of_int (n mod d) :: rat) \<le> of_int d - 1" using m(2) by (metis of_int_1 of_int_diff of_int_le_iff)
    then have "(of_int (n mod d) :: rat) / of_int d \<le> (of_int d - 1) / of_int d"
      using dpos by (simp add: divide_right_mono)
    also have "\<dots> = 1 - 1 / of_int d" using dpos by (simp add: field_simps)
    finally show ?thesis .
  qed
  ultimately have "of_int ?r < y" "y < of_int ?r + 1"
    using assms(3) by linarith+
  then have "\<lfloor>y\<rfloor> = ?r" by (simp add: floor_unique)
  then show ?thesis by (simp add: floor_divide_of_int_eq)
qed


lemma percent_exact:
  assumes "c \<le> t" and "0 < t" and "t < 2 ^ 32" and "(200 * c + t) mod (2 * t) \<noteq> 0"
  shows "Math_round (double_mul (double_div (of_nat c) (of_nat t)) 100)
           = roundHalfUp (of_nat c / of_nat t * 100)"
proof -
  let ?p = "double_mul (double_div (of_nat c) (of_nat t)) 100"
  let ?ex = "of_nat c / of_nat t * 100 :: rat"
  let ?n = "int (200 * c + t)" and ?d = "int (2 * t)"
  have dpos: "0 < ?d" using assms(2) by simp
  have md: "?n mod ?d \<noteq> 0"
    using assms(4) by (metis of_nat_eq_0_iff of_nat_mod)
  have tpos: "0 < (of_nat t :: rat)" using assms(2) by simp
  have half: "?ex + 1 / 2 = of_int ?n / of_int ?d"
    using tpos by (simp add: field_simps)
  have "int t < 2 ^ 32" using assms(3) by (metis of_nat_less_iff of_nat_numeral of_nat_power)
  then have "300 * ?d < 2 ^ 53" by simp
  then have "(of_int (300 * ?d) :: rat) < of_int (2 ^ 53)" by (simp only: of_int_less_iff)
  then have "300 * (of_int ?d :: rat) < 2 ^ 53" by simp
  then have small: "300 / 2 ^ 53 < 1 / (of_int ?d :: rat)"
    using dpos by (simp add: field_simps)
  have "\<bar>(?p + 1 / 2) - of_int ?n / of_int ?d\<bar> = \<bar>?p - ?ex\<bar>"
    unfolding half [symmetric] by simp
  also have "\<dots> \<le> 300 / 2 ^ 53" using percent_error [OF assms(1,2)] .
  also have "\<dots> < 1 / of_int ?d" by (rule small)
  finally have "\<lfloor>?p + 1 / 2\<rfloor> = \<lfloor>of_int ?n / of_int ?d :: rat\<rfloor>"
    by (rule round_near [OF dpos md])
  then show ?thesis by (simp only: Math_round_def roundHalfUp_def half)
qed

lemma percentComplete_formula:
  "percentComplete (calculateStats fs)
     = (if 0 < totalFiles (calculateStats fs)
        then Math_round (double_mul (double_div (of_nat (completed (calculateStats fs)))
                                      (of_nat (totalFiles (calculateStats fs)))) 100)
        else 0)"
  by (simp add: calculateStats_def Let_def)

lemma completed_le_total: "completed (calculateStats fs) \<le> totalFiles (calculateStats fs)"
  by (simp add: calculateStats_def Let_def)

text \<open>
  The exact value is half-way between two integers only when \<open>completed / totalFiles\<close>
  is one of the hundred fractions \<open>(2 * k + 1) / 200\<close>; the double arithmetic is
  evaluated on each of them.
\<close>

lemma tie_table_1:
  "list_all (\<lambda>k. Math_round (double_mul (double_div (of_int (2 * k + 1)) 200) 100)
                   = (if k \<in> set [14, 28, 56, 57] then k else k + 1))
     (map int [0..<25])"
  by code_simp

lemma tie_table_2:
  "list_all (\<lambda>k. Math_round (double_mul (double_div (of_int (2 * k + 1)) 200) 100)
                   = (if k \<in> set [14, 28, 56, 57] then k else k + 1))
     (map int [25..<50])"
  by code_simp

lemma tie_table_3:
  "list_all (\<lambda>k. Math_round (double_mul (double_div (of_int (2 * k + 1)) 200) 100)
                   = (if k \<in> set [14, 28, 56, 57] then k else k + 1))
     (map int [50..<75])"
  by code_simp

lemma tie_table_4:
  "list_all (\<lambda>k. Math_round (double_mul (double_div (of_int (2 * k + 1)) 200) 100)
                   = (if k \<in> set [14, 28, 56, 57] then k else k + 1))
     (map int [75..<100])"
  by code_simp

lemma tie_value:
  assumes "k < 100"
  shows "Math_round (double_mul (double_div (of_int (2 * int k + 1)) 200) 100)
           = (if int k \<in> set [14, 28, 56, 57] then int k else int k + 1)"
proof -
  have "k \<in> {0..<25} \<or> k \<in> {25..<50} \<or> k \<in> {50..<75} \<or> k \<in> {75..<100}"
    using assms unfolding atLeastLessThan_iff by arith
  then have "int k \<in> int ` {0..<25} \<or> int k \<in> int ` {25..<50}
      \<or> int k \<in> int ` {50..<75} \<or> int k \<in> int ` {75..<100}"
    by blast
  then have "int k \<in> set (map int [0..<25]) \<or> int k \<in> set (map int [25..<50])
      \<or> int k \<in> set (map int [50..<75]) \<or> int k \<in> set (map int [75..<100])"
    by (simp only: set_map set_upt)
  then show ?thesis
    using tie_table_1 tie_table_2 tie_table_3 tie_table_4 unfolding list_all_iff by blast
qed

lemma percent_tie:
  assumes "0 < t" and "c \<le> t" and "200 * c = (2 * k + 1) * t"
  shows "Math_round (double_mul (double_div (of_nat c) (of_nat t)) 100)
           = (if k \<in> {14, 28, 56, 57} then int k else int k + 1)"
    and "roundHalfUp (of_nat c / of_nat t * 100) = int k + 1"
proof -
  have "200 * c \<le> 200 * t" using assms(2) by simp
  then have "(2 * k + 1) * t \<le> 200 * t" unfolding assms(3) .
  then have "2 * k + 1 \<le> 200" using assms(1) by (simp only: mult_le_cancel2)
  then have k: "k < 100" by arith
  have "(of_nat (200 * c) :: rat) = of_nat ((2 * k + 1) * t)" by (simp only: assms(3))
  then have "200 * (of_nat c :: rat) = (2 * of_nat k + 1) * of_nat t"
    by (simp add: algebra_simps)
  then have eq: "(of_nat c :: rat) / of_nat t = of_int (2 * int k + 1) / 200"
    using assms(1) by (simp add: field_simps)
  have "Math_round (double_mul (double_div (of_nat c) (of_nat t)) 100)
      = Math_round (double_mul (double_div (of_int (2 * int k + 1)) 200) 100)"
    by (simp only: double_div_def eq)
  also have "\<dots> = (if int k \<in> set [14, 28, 56, 57] then int k else int k + 1)"
    using k by (rule tie_value)
  also have "\<dots> = (if k \<in> {14, 28, 56, 57} then int k else int k + 1)" by auto
  finally show "Math_round (double_mul (double_div (of_nat c) (of_nat t)) 100)
           = (if k \<in> {14, 28, 56, 57} then int k else int k + 1)" .
  have "(of_nat c :: rat) / of_nat t * 100 + 1 / 2 = of_int (int k + 1)"
    unfolding eq by (simp add: field_simps)
  then show "roundHalfUp (of_nat c / of_nat t * 100) = int k + 1"
    by (simp only: roundHalfUp_def floor_of_int)
qed

lemma percent_characterised:
  assumes "c \<le> t" and "0 < t" and "t < 2 ^ 32"
  shows "Math_round (double_mul (double_div (of_nat c) (of_nat t)) 100)
           = (if 200 * c \<in> {29 * t, 57 * t, 113 * t, 115 * t}
              then roundHalfUp (of_nat c / of_nat t * 100) - 1
              else roundHalfUp (of_nat c / of_nat t * 100))"
proof (cases "(200 * c + t) mod (2 * t) = 0")
  case True
  then have "2 * t dvd 200 * c + t" by (simp only: mod_eq_0_iff_dvd)
  then obtain m where m: "200 * c + t = 2 * t * m" unfolding dvd_def by blast
  have "m \<noteq> 0"
  proof
    assume "m = 0"
    with m have "200 * c + t = 0" by simp
    with assms(2) show False by simp
  qed
  then obtain k where mk: "m = Suc k" by (cases m) simp_all
  have tie: "200 * c = (2 * k + 1) * t" using m unfolding mk by (simp add: algebra_simps)
  have exc: "(200 * c \<in> {29 * t, 57 * t, 113 * t, 115 * t}) = (k \<in> {14, 28, 56, 57})"
    unfolding tie using assms(2) by auto
  show ?thesis
    unfolding exc percent_tie [OF assms(2,1) tie] by simp
next
  case False
  have "200 * c \<notin> {29 * t, 57 * t, 113 * t, 115 * t}"
  proof
    assume "200 * c \<in> {29 * t, 57 * t, 113 * t, 115 * t}"
    then consider "200 * c + t = 2 * t * 15" | "200 * c + t = 2 * t * 29"
      | "200 * c + t = 2 * t * 57" | "200 * c + t = 2 * t * 58" by auto
    then have "(200 * c + t) mod (2 * t) = 0" by cases (simp_all only: mod_mult_self1_is_0)
    then show False using False by simp
  qed
  then show ?thesis using percent_exact [OF assms False] by simp
qed

lemma calculateStats_filesWith:
  assumes "c \<le> t"
  shows "totalFiles (calculateStats (filesWith c t)) = t"
    and "completed (calculateStats (filesWith c t)) = c"
proof -
  have s: "map snd (filesWith c t)
      = map (\<lambda>i. initialEntry\<lparr>status := Complete\<rparr>) [0..<c]
        @ map (\<lambda>i. initialEntry\<lparr>status := NotStarted\<rparr>) [c..<t]"
    by (simp add: filesWith_def numberedFile_def comp_def)
  show "totalFiles (calculateStats (filesWith c t)) = t"
    using assms by (simp add: calculateStats_def Let_def s)
  have "filter (\<lambda>f. status f = Complete) (map snd (filesWith c t))
      = map (\<lambda>i. initialEntry\<lparr>status := Complete\<rparr>) [0..<c]"
    unfolding s by (simp add: filter_map comp_def)
  then show "completed (calculateStats (filesWith c t)) = c"
    by (simp add: calculateStats_def Let_def)
qed

text \<open>
  C3 (amended). For every file mapping, \<open>percentComplete\<close> is 0 when \<open>totalFiles\<close> is
  0. When \<open>totalFiles\<close> is positive (and below \<open>2 ^ 32\<close>, as the length of every
  JavaScript array is) it equals round-half-up of \<open>completed / totalFiles * 100\<close>, ties
  included, except where that value is exactly 14.5, 28.5, 56.5 or 57.5: there the double
  arithmetic lands just below the tie and \<open>percentComplete\<close> is one less, 14, 28, 56 or
  57. In particular 1 complete file out of 3 yields 33.
\<close>

theorem percentComplete_rounding:
  "(totalFiles (calculateStats fs) = 0 \<longrightarrow> percentComplete (calculateStats fs) = 0)
   \<and> (0 < totalFiles (calculateStats fs) \<and> totalFiles (calculateStats fs) < 2 ^ 32
      \<longrightarrow> percentComplete (calculateStats fs)
            = (if 200 * completed (calculateStats fs)
                    \<in> {29 * totalFiles (calculateStats fs), 57 * totalFiles (calculateStats fs),
                        113 * totalFiles (calculateStats fs), 115 * totalFiles (calculateStats fs)}
               then roundHalfUp (of_nat (completed (calculateStats fs))
                                   / of_nat (totalFiles (calculateStats fs)) * 100) - 1
               else roundHalfUp (of_nat (completed (calculateStats fs))
                                   / of_nat (totalFiles (calculateStats fs)) * 100)))
   \<and> (completed (calculateStats fs) = 1 \<and> totalFiles (calculateStats fs) = 3
      \<longrightarrow> percentComplete (calculateStats fs) = 33)"
proof (intro conjI impI)
  assume "totalFiles (calculateStats fs) = 0"
  then show "percentComplete (calculateStats fs) = 0" by (simp add: percentComplete_formula)
next
  assume a: "0 < totalFiles (calculateStats fs) \<and> totalFiles (calculateStats fs) < 2 ^ 32"
  then have "percentComplete (calculateStats fs)
      = Math_round (double_mul (double_div (of_nat (completed (calculateStats fs)))
                                  (of_nat (totalFiles (calculateStats fs)))) 100)"
    by (simp add: percentComplete_formula)
  also have "\<dots> = (if 200 * completed (calculateStats fs)
                    \<in> {29 * totalFiles (calculateStats fs), 57 * totalFiles (calculateStats fs),
                        113 * totalFiles (calculateStats fs), 115 * totalFiles (calculateStats fs)}
               then roundHalfUp (of_nat (completed (calculateStats fs))
                                   / of_nat (totalFiles (calculateStats fs)) * 100) - 1
               else roundHalfUp (of_nat (completed (calculateStats fs))
                                   / of_nat (totalFiles (calculateStats fs)) * 100))"
    using a by (intro percent_characterised completed_le_total) simp_all
  finally show "percentComplete (calculateStats fs)
            = (if 200 * completed (calculateStats fs)
                    \<in> {29 * totalFiles (calculateStats fs), 57 * totalFiles (calculateStats fs),
                        113 * totalFiles (calculateStats fs), 115 * totalFiles (calculateStats fs)}
               then roundHalfUp (of_nat (completed (calculateStats fs))
                                   / of_nat (totalFiles (calculateStats fs)) * 100) - 1
               else roundHalfUp (of_nat (completed (calculateStats fs))
                                   / of_nat (totalFiles (calculateStats fs)) * 100))" .
next
  assume a: "completed (calculateStats fs) = 1 \<and> totalFiles (calculateStats fs) = 3"
  have "Math_round (double_mul (double_div (of_nat 1) (of_nat 3)) 100) = 33" by code_simp
  then show "percentComplete (calculateStats fs) = 33"
    using a by (simp add: percentComplete_formula)
qed

theorem percentComplete_rounding_witness:
  "totalFiles (calculateStats (filesWith 1 3)) = 3 \<and> completed (calculateStats (filesWith 1 3)) = 1
   \<and> percentComplete (calculateStats (filesWith 1 3)) = 33
   \<and> totalFiles (calculateStats (filesWith 1 8)) = 8 \<and> completed (calculateStats (filesWith 1 8)) = 1
   \<and> percentComplete (calculateStats (filesWith 1 8)) = roundHalfUp (of_nat 1 / of_nat 8 * 100)
   \<and> roundHalfUp (of_nat 1 / of_nat 8 * 100) = 13"
proof -
  have t3: "totalFiles (calculateStats (filesWith 1 3)) = 3"
    and c3: "completed (calculateStats (filesWith 1 3)) = 1"
    by (simp_all add: calculateStats_filesWith)
  have t8: "totalFiles (calculateStats (filesWith 1 8)) = 8"
    and c8: "completed (calculateStats (filesWith 1 8)) = 1"
    by (simp_all add: calculateStats_filesWith)
  have r: "roundHalfUp (of_nat 1 / of_nat 8 * 100) = 13" by code_simp
  have p3: "percentComplete (calculateStats (filesWith 1 3)) = 33"
    using percentComplete_rounding [of "filesWith 1 3"] t3 c3 by simp
  have p8: "percentComplete (calculateStats (filesWith 1 8)) = roundHalfUp (of_nat 1 / of_nat 8 * 100)"
    using percentComplete_rounding [of "filesWith 1 8"] unfolding t8 c8 by simp
  show ?thesis using t3 c3 t8 c8 r p3 p8 by simp
qed

text \<open>
  C3 as stated fails at four ties. With 23 complete files out of 40 the exact value is
  57.5 and round-half-up gives 58, but the quotient 23 / 40 is not a double, the product
  of its nearest double with 100 rounds to the double just below 57.5, and
  \<open>Math.round\<close> returns 57; likewise 29, 57 and 113 complete files out of 200 give 14,
  28 and 56 where round-half-up gives 15, 29 and 57.
\<close>

theorem percentComplete_tie_counterexample:
  "totalFiles (calculateStats (filesWith 23 40)) = 40
   \<and> completed (calculateStats (filesWith 23 40)) = 23
   \<and> percentComplete (calculateStats (filesWith 23 40)) = 57
   \<and> roundHalfUp (of_nat 23 / of_nat 40 * 100) = 58
   \<and> percentComplete (calculateStats (filesWith 29 200)) = 14
   \<and> roundHalfUp (of_nat 29 / of_nat 200 * 100) = 15
   \<and> percentComplete (calculateStats (filesWith 57 200)) = 28
   \<and> roundHalfUp (of_nat 57 / of_nat 200 * 100) = 29
   \<and> percentComplete (calculateStats (filesWith 113 200)) = 56
   \<and> roundHalfUp (of_nat 113 / of_nat 200 * 100) = 57"
proof -
  have p: "percentComplete (calculateStats (filesWith c t))
      = Math_round (double_mul (double_div (of_nat c) (of_nat t)) 100)" if "c \<le> t" "0 < t" for c t
    using that by (simp add: percentComplete_formula calculateStats_filesWith)
  have 1: "Math_round (double_mul (double_div (of_nat 23) (of_nat 40)) 100) = 57" by code_simp
  have 2: "Math_round (double_mul (double_div (of_nat 29) (of_nat 200)) 100) = 14" by code_simp
  have 3: "Math_round (double_mul (double_div (of_nat 57) (of_nat 200)) 100) = 28" by code_simp
  have 4: "Math_round (double_mul (double_div (of_nat 113) (of_nat 200)) 100) = 56" by code_simp
  have r: "roundHalfUp (of_nat 23 / of_nat 40 * 100) = 58"
    "roundHalfUp (of_nat 29 / of_nat 200 * 100) = 15"
    "roundHalfUp (of_nat 57 / of_nat 200 * 100) = 29"
    "roundHalfUp (of_nat 113 / of_nat 200 * 100) = 57"
    by code_simp+
  show ?thesis
    using 1 2 3 4 r by (simp add: p calculateStats_filesWith)
qed

end
